theory Spec2Isabelle
  imports Complex_Main "HOL-Library.AList"
begin

section \<open>Numbers, arrays and errors\<close>

text \<open>
  The module \<^verbatim>\<open>pycurious/optimise.py\<close> computes with IEEE 754 double-precision numbers
  (Python's \<^verbatim>\<open>float\<close>, numpy's \<^verbatim>\<open>float64\<close>). A value is a finite number, one of the two
  infinities or not-a-number; a finite value \<open>Fin x\<close> that the code can hold is a double,
  that is \<open>x = m * 2 ^ e\<close> with \<open>\<bar>m\<bar> < 2 ^ 53\<close> and \<open>- 1074 \<le> e \<le> 971\<close>.

  Every arithmetic operation returns its exact result rounded to the nearest double,
  ties to the even significand (\<open>rnd\<close>): the unit in the last place of \<open>x\<close> is
  \<open>2 ^ ulp_exp x\<close> (53 significant bits, but never below \<open>2 ^ - 1074\<close>, the spacing of
  the subnormal numbers), the result is the nearest multiple of it, and a result of
  magnitude \<open>2 ^ 1024\<close> or more is the infinity of its sign. A decimal literal of the
  source is the rounding of its decimal value (\<^verbatim>\<open>1e99\<close> is \<open>rnd (10 ^ 99)\<close>). What is not
  modelled is the sign of a zero, which no result of the module depends on: a zero
  divisor is taken as \<^verbatim>\<open>+0.0\<close>.

  The special values follow IEEE 754 as numpy applies it: every operation on a NaN is a
  NaN, every comparison with a NaN is false, \<^verbatim>\<open>inf - inf\<close>, \<^verbatim>\<open>0 * inf\<close>, \<^verbatim>\<open>0 / 0\<close> and
  \<^verbatim>\<open>inf / inf\<close> are NaN.
\<close>

datatype pyfloat = Fin real | PInf | NInf | NaN

definition round_even :: "real \<Rightarrow> int" where
  "round_even q =
     (let f = \<lfloor>q\<rfloor>; d = q - of_int f in
      if d < 1/2 then f else if 1/2 < d then f + 1 else if even f then f else f + 1)"

definition ulp_exp :: "real \<Rightarrow> int" where
  "ulp_exp x = max (- 1074) (\<lfloor>log 2 \<bar>x\<bar>\<rfloor> - 52)"

definition rnd :: "real \<Rightarrow> pyfloat" where
  "rnd x =
     (if x = 0 then Fin 0
      else
        (let e = ulp_exp x; y = of_int (round_even (x / 2 powi e)) * 2 powi e in
         if 2 ^ 1024 \<le> \<bar>y\<bar> then (if 0 < x then PInf else NInf) else Fin y))"

text \<open>
  The values the code can hold: the infinities, NaN, and the finite numbers that the
  rounding leaves as they are.
\<close>

definition is_double :: "pyfloat \<Rightarrow> bool" where
  "is_double a = (case a of Fin x \<Rightarrow> rnd x = Fin x | _ \<Rightarrow> True)"

fun isfinite :: "pyfloat \<Rightarrow> bool" where
  "isfinite (Fin x) = True"
| "isfinite PInf = False"
| "isfinite NInf = False"
| "isfinite NaN = False"

fun fneg :: "pyfloat \<Rightarrow> pyfloat" where
  "fneg (Fin x) = Fin (- x)"
| "fneg PInf = NInf"
| "fneg NInf = PInf"
| "fneg NaN = NaN"

fun fadd :: "pyfloat \<Rightarrow> pyfloat \<Rightarrow> pyfloat" where
  "fadd (Fin x) (Fin y) = rnd (x + y)"
| "fadd (Fin x) PInf = PInf"
| "fadd (Fin x) NInf = NInf"
| "fadd PInf (Fin y) = PInf"
| "fadd PInf PInf = PInf"
| "fadd PInf NInf = NaN"
| "fadd NInf (Fin y) = NInf"
| "fadd NInf PInf = NaN"
| "fadd NInf NInf = NInf"
| "fadd NaN b = NaN"
| "fadd a NaN = NaN"

definition fsub :: "pyfloat \<Rightarrow> pyfloat \<Rightarrow> pyfloat" where
  "fsub a b = fadd a (fneg b)"

fun fmul :: "pyfloat \<Rightarrow> pyfloat \<Rightarrow> pyfloat" where
  "fmul (Fin x) (Fin y) = rnd (x * y)"
| "fmul (Fin x) PInf = (if x = 0 then NaN else if 0 < x then PInf else NInf)"
| "fmul (Fin x) NInf = (if x = 0 then NaN else if 0 < x then NInf else PInf)"
| "fmul PInf (Fin y) = (if y = 0 then NaN else if 0 < y then PInf else NInf)"
| "fmul NInf (Fin y) = (if y = 0 then NaN else if 0 < y then NInf else PInf)"
| "fmul PInf PInf = PInf"
| "fmul PInf NInf = NInf"
| "fmul NInf PInf = NInf"
| "fmul NInf NInf = PInf"
| "fmul NaN b = NaN"
| "fmul a NaN = NaN"

text \<open>numpy's division: a zero divisor gives an infinity or a NaN (and a warning), no error.\<close>

fun fdiv :: "pyfloat \<Rightarrow> pyfloat \<Rightarrow> pyfloat" where
  "fdiv (Fin x) (Fin y) =
     (if y = 0 then (if x = 0 then NaN else if 0 < x then PInf else NInf) else rnd (x / y))"
| "fdiv (Fin x) PInf = Fin 0"
| "fdiv (Fin x) NInf = Fin 0"
| "fdiv PInf (Fin y) = (if 0 \<le> y then PInf else NInf)"
| "fdiv NInf (Fin y) = (if 0 \<le> y then NInf else PInf)"
| "fdiv PInf PInf = NaN"
| "fdiv PInf NInf = NaN"
| "fdiv NInf PInf = NaN"
| "fdiv NInf NInf = NaN"
| "fdiv NaN b = NaN"
| "fdiv a NaN = NaN"

fun fsqrt :: "pyfloat \<Rightarrow> pyfloat" where
  "fsqrt (Fin x) = (if x < 0 then NaN else rnd (sqrt x))"
| "fsqrt PInf = PInf"
| "fsqrt NInf = NaN"
| "fsqrt NaN = NaN"

fun flt :: "pyfloat \<Rightarrow> pyfloat \<Rightarrow> bool" where
  "flt (Fin x) (Fin y) = (x < y)"
| "flt (Fin x) PInf = True"
| "flt NInf (Fin y) = True"
| "flt NInf PInf = True"
| "flt a b = False"

definition fgt :: "pyfloat \<Rightarrow> pyfloat \<Rightarrow> bool" where
  "fgt a b = flt b a"

definition fle :: "pyfloat \<Rightarrow> pyfloat \<Rightarrow> bool" where
  "fle a b = (a \<noteq> NaN \<and> b \<noteq> NaN \<and> (a = b \<or> flt a b))"

text \<open>
  \<^verbatim>\<open>np.exp\<close> is taken as the exponential rounded like the arithmetic. The rounding
  gives its underflow to \<^verbatim>\<open>0.0\<close> (for arguments below about \<open>- 745.13\<close>, where the
  exponential is less than half the least subnormal number) and its overflow to \<^verbatim>\<open>inf\<close>
  (above about \<open>709.78\<close>); the sentinel \<^verbatim>\<open>1e99\<close> of \<^verbatim>\<open>min_func\<close> works through that
  underflow.
\<close>

fun np_exp :: "pyfloat \<Rightarrow> pyfloat" where
  "np_exp (Fin x) = rnd (exp x)"
| "np_exp PInf = PInf"
| "np_exp NInf = Fin 0"
| "np_exp NaN = NaN"

text \<open>
  Python's builtins \<^verbatim>\<open>max(a, b)\<close> and \<^verbatim>\<open>min(a, b)\<close> keep the first argument unless the
  second compares strictly greater (smaller); with a NaN first, the NaN is kept.
\<close>

definition py_max :: "pyfloat \<Rightarrow> pyfloat \<Rightarrow> pyfloat" where
  "py_max a b = (if fgt b a then b else a)"

definition py_min :: "pyfloat \<Rightarrow> pyfloat \<Rightarrow> pyfloat" where
  "py_min a b = (if flt b a then b else a)"

text \<open>
  A value handed to the arithmetic of \<^verbatim>\<open>objective_function\<close> is a Python float, a numpy
  scalar (\<^verbatim>\<open>np.float64\<close>) or a one-dimensional numpy array. Between two Python floats
  the division raises \<^verbatim>\<open>ZeroDivisionError\<close> on a zero divisor; as soon as a numpy operand
  takes part, numpy's rules apply, with broadcasting of a scalar or a length-one array
  and \<^verbatim>\<open>ValueError\<close> for arrays whose lengths do not match.
\<close>

datatype pyval = PyFloat pyfloat | NpFloat pyfloat | NdArray "pyfloat list"

datatype error =
  ValueError | TypeError | IndexError | KeyError | NameError | AttributeError
  | ZeroDivisionError | ExternalError

fun ravel :: "pyval \<Rightarrow> pyfloat list" where
  "ravel (PyFloat a) = [a]"
| "ravel (NpFloat a) = [a]"
| "ravel (NdArray xs) = xs"

fun np_binop :: "(pyfloat \<Rightarrow> pyfloat \<Rightarrow> pyfloat) \<Rightarrow> pyval \<Rightarrow> pyval \<Rightarrow> error + pyval" where
  "np_binop f (NdArray xs) (NdArray ys) =
     (if length xs = length ys then Inr (NdArray (map2 f xs ys))
      else if length xs = 1 then Inr (NdArray (map (f (hd xs)) ys))
      else if length ys = 1 then Inr (NdArray (map (\<lambda>x. f x (hd ys)) xs))
      else Inl ValueError)"
| "np_binop f (NdArray xs) b = Inr (NdArray (map (\<lambda>x. f x (hd (ravel b))) xs))"
| "np_binop f a (NdArray ys) = Inr (NdArray (map (f (hd (ravel a))) ys))"
| "np_binop f a b = Inr (NpFloat (f (hd (ravel a)) (hd (ravel b))))"

fun py_sub :: "pyval \<Rightarrow> pyval \<Rightarrow> error + pyval" where
  "py_sub (PyFloat a) (PyFloat b) = Inr (PyFloat (fsub a b))"
| "py_sub a b = np_binop fsub a b"

fun py_div :: "pyval \<Rightarrow> pyval \<Rightarrow> error + pyval" where
  "py_div (PyFloat a) (PyFloat b) =
     (if b = Fin 0 then Inl ZeroDivisionError else Inr (PyFloat (fdiv a b)))"
| "py_div a b = np_binop fdiv a b"

text \<open>
  \<^verbatim>\<open>np.linalg.norm\<close> with its default arguments flattens its argument and returns the
  square root of its dot product with itself. The dot product is summed from left to
  right, each product and each partial sum rounded (numpy leaves the order to its BLAS;
  for the scalars and the one-element arrays of the statements below there is one product
  and the order does not matter). The square \<^verbatim>\<open>**2\<close> of the norm is its rounded product
  with itself.
\<close>

definition fsum :: "pyfloat list \<Rightarrow> pyfloat" where
  "fsum xs = foldl fadd (Fin 0) xs"

definition np_linalg_norm :: "pyval \<Rightarrow> pyfloat" where
  "np_linalg_norm v = fsqrt (fsum (map (\<lambda>x. fmul x x) (ravel v)))"

section \<open>The store of priors\<close>

text \<open>
  A frozen distribution of \<^verbatim>\<open>scipy.stats\<close> keeps the positional and the keyword arguments
  it was made with; \<^verbatim>\<open>stats.norm(p, sigma_p)\<close> is the normal distribution frozen at the
  two positional arguments. The dictionaries \<^verbatim>\<open>self.prior\<close> and \<^verbatim>\<open>self.prior_pdf\<close> are
  association lists, in insertion order.
\<close>

record rv_frozen =
  dist :: string
  args :: "pyval list"
  kwds :: "(string \<times> pyval) list"

definition stats_norm :: "pyval \<Rightarrow> pyval \<Rightarrow> rv_frozen" where
  "stats_norm p sigma_p = \<lparr>dist = ''norm'', args = [p, sigma_p], kwds = []\<rparr>"

record prior_store =
  prior :: "(string \<times> pyval list option) list"
  prior_pdf :: "(string \<times> rv_frozen option) list"

definition reset_priors :: prior_store where
  "reset_priors =
     \<lparr>prior = [(''beta'', None), (''zt'', None), (''dz'', None), (''C'', None)],
      prior_pdf = [(''beta'', None), (''zt'', None), (''dz'', None), (''C'', None)]\<rparr>"

text \<open>
  A keyword argument of \<^verbatim>\<open>add_prior\<close> is a tuple, a frozen distribution, or a value of
  any other type; the keywords are visited in the order of the call. The loop writes the
  store as it goes and stops at the first error, so the function returns the error (if
  any) together with the store as the exception leaves it.
\<close>

datatype prior_arg = Tuple "pyval list" | Frozen rv_frozen | Other

definition set_prior :: "prior_store \<Rightarrow> string \<Rightarrow> rv_frozen \<Rightarrow> prior_store" where
  "set_prior st key pdf =
     st\<lparr>prior_pdf := AList.update key (Some pdf) (prior_pdf st),
        prior := AList.update key (Some (args pdf)) (prior st)\<rparr>"

fun add_prior :: "prior_store \<Rightarrow> (string \<times> prior_arg) list \<Rightarrow> error option \<times> prior_store" where
  "add_prior st [] = (None, st)"
| "add_prior st ((key, pr) # kwargs) =
     (if key \<in> fst ` set (prior st) then
        (case pr of
           Tuple [p, sigma_p] \<Rightarrow> add_prior (set_prior st key (stats_norm p sigma_p)) kwargs
         | Tuple _ \<Rightarrow> (Some ValueError, st)
         | Frozen pdf \<Rightarrow> add_prior (set_prior st key pdf) kwargs
         | Other \<Rightarrow> (Some ValueError, st))
      else (Some ValueError, st))"

section \<open>The penalised objective\<close>

text \<open>
  \<^verbatim>\<open>objective_function(x, x0, sigma_x0, *args)\<close> is called as
  \<^verbatim>\<open>objective_function(val, *prior_args)\<close>: fewer than two prior arguments is a
  \<^verbatim>\<open>TypeError\<close>, further ones are ignored.
\<close>

fun objective_function :: "pyval \<Rightarrow> pyval list \<Rightarrow> error + pyfloat" where
  "objective_function x (x0 # sigma_x0 # rest) =
     (case py_sub x x0 of
        Inl e \<Rightarrow> Inl e
      | Inr d \<Rightarrow>
          (case py_div d sigma_x0 of
             Inl e \<Rightarrow> Inl e
           | Inr q \<Rightarrow> Inr (fmul (Fin (1/2)) (fmul (np_linalg_norm q) (np_linalg_norm q)))))"
| "objective_function x _ = Inl TypeError"

fun objective_loop ::
  "(string \<times> pyval list option) list \<Rightarrow> (string \<times> pyval) list \<Rightarrow> pyfloat \<Rightarrow> error + pyfloat" where
  "objective_loop pr [] c = Inr c"
| "objective_loop pr ((key, val) # kwargs) c =
     (case map_of pr key of
        Some (Some prior_args) \<Rightarrow>
          (case objective_function val prior_args of
             Inl e \<Rightarrow> Inl e
           | Inr m \<Rightarrow> objective_loop pr kwargs (fadd c m))
      | _ \<Rightarrow> objective_loop pr kwargs c)"

definition objective_routine ::
  "prior_store \<Rightarrow> (string \<times> pyval) list \<Rightarrow> error + pyfloat" where
  "objective_routine st kwargs = objective_loop (prior st) kwargs (Fin 0)"

section \<open>What the module takes from outside\<close>

text \<open>
  The grid operations of the parent class (\<^verbatim>\<open>subgrid\<close>, \<^verbatim>\<open>radial_spectrum\<close>, the latter
  with its taper and options fixed), the forward model \<^verbatim>\<open>bouligand2009\<close> and scipy's
  \<^verbatim>\<open>minimize\<close> are not part of this module: they are parameters, and each may raise.
  A parameter vector is the four numbers \<^verbatim>\<open>[beta, zt, dz, C]\<close> of a numpy array.
\<close>

type_synonym vec = "pyfloat \<times> pyfloat \<times> pyfloat \<times> pyfloat"

type_synonym bound = "pyfloat option \<times> pyfloat option"

record 'g externals =
  subgrid :: "pyfloat \<Rightarrow> pyfloat \<Rightarrow> pyfloat \<Rightarrow> error + 'g"
  radial_spectrum :: "'g \<Rightarrow> error + (pyval \<times> pyval \<times> pyval)"
  bouligand2009 :: "pyval \<Rightarrow> pyfloat \<Rightarrow> pyfloat \<Rightarrow> pyfloat \<Rightarrow> pyfloat \<Rightarrow> error + pyval"
  minimize :: "(vec \<Rightarrow> error + pyfloat) \<Rightarrow> vec \<Rightarrow> bound list \<Rightarrow> error + vec"

text \<open>
  The random draws are inputs, indexed by the call that makes them:
  \<^verbatim>\<open>np.random.normal(size=4)\<close> and \<^verbatim>\<open>np.random.rand()\<close> by the number of the call,
  \<^verbatim>\<open>prior_pdf.rvs()\<close> and \<^verbatim>\<open>np.random.normal(Phi, sigma_Phi)\<close> by the simulation (and the
  key) they are drawn in. The rows of \<^verbatim>\<open>np.empty((n, 4))\<close> hold whatever the memory held.
\<close>

record rng =
  random_normal4 :: "nat \<Rightarrow> vec"
  random_rand :: "nat \<Rightarrow> pyfloat"
  rvs :: "nat \<Rightarrow> string \<Rightarrow> rv_frozen \<Rightarrow> error + pyval"
  random_normal :: "nat \<Rightarrow> pyval \<Rightarrow> pyval \<Rightarrow> error + pyval"
  uninitialised :: "nat \<Rightarrow> vec"

definition np_empty :: "rng \<Rightarrow> nat \<Rightarrow> vec list" where
  "np_empty r n = map (uninitialised r) [0..<n]"

text \<open>\<^verbatim>\<open>list(a.T)\<close> of an array of rows: the four columns, in the order beta, zt, dz, C.\<close>

definition columns :: "vec list \<Rightarrow> pyfloat list list" where
  "columns rows =
     [map (\<lambda>(beta, zt, dz, C). beta) rows, map (\<lambda>(beta, zt, dz, C). zt) rows,
      map (\<lambda>(beta, zt, dz, C). dz) rows, map (\<lambda>(beta, zt, dz, C). C) rows]"

subsection \<open>The bounds set by the constructor\<close>

definition lb :: "pyfloat option list" where
  "lb = [Some (Fin 0), Some (Fin 0), Some (Fin 0), None]"

definition ub :: "pyfloat option list" where
  "ub = replicate (length lb) None"

definition bounds :: "bound list" where
  "bounds = zip lb ub"

subsection \<open>The function to minimise\<close>

definition min_func ::
  "'g externals \<Rightarrow> prior_store \<Rightarrow> vec \<Rightarrow> pyval \<Rightarrow> pyval \<Rightarrow> pyval \<Rightarrow> error + pyfloat" where
  "min_func ext st x kh Phi sigma_Phi =
     (case x of (beta, zt, dz, C) \<Rightarrow>
        (case bouligand2009 ext kh beta zt dz C of
           Inl e \<Rightarrow> Inl e
         | Inr Phi_syn \<Rightarrow>
             (case objective_function Phi_syn [Phi, sigma_Phi] of
                Inl e \<Rightarrow> Inl e
              | Inr misfit \<Rightarrow>
                  if \<not> isfinite misfit then Inr (rnd (10 ^ 99))
                  else
                    (case objective_routine st
                            [(''beta'', NpFloat beta), (''zt'', NpFloat zt),
                             (''dz'', NpFloat dz), (''C'', NpFloat C)] of
                       Inl e \<Rightarrow> Inl e
                     | Inr c \<Rightarrow> Inr (fadd misfit c)))))"

section \<open>Point and batch estimation\<close>

text \<open>
  The three estimators start alike: cut the window around the centroid, pass it through
  the caller's hook (the identity when none is given) and take its radial spectrum.
\<close>

definition windowed_spectrum ::
  "'g externals \<Rightarrow> pyfloat \<Rightarrow> pyfloat \<Rightarrow> pyfloat \<Rightarrow> ('g \<Rightarrow> error + 'g) option
     \<Rightarrow> error + (pyval \<times> pyval \<times> pyval)" where
  "windowed_spectrum ext window xc yc process_subgrid =
     (case subgrid ext window xc yc of
        Inl e \<Rightarrow> Inl e
      | Inr sg \<Rightarrow>
          (case (case process_subgrid of None \<Rightarrow> Inr sg | Some hook \<Rightarrow> hook sg) of
             Inl e \<Rightarrow> Inl e
           | Inr sg' \<Rightarrow> radial_spectrum ext sg'))"

definition optimise ::
  "'g externals \<Rightarrow> prior_store \<Rightarrow> pyfloat \<Rightarrow> pyfloat \<Rightarrow> pyfloat \<Rightarrow> vec
     \<Rightarrow> ('g \<Rightarrow> error + 'g) option \<Rightarrow> error + vec" where
  "optimise ext st window xc yc x0 process_subgrid =
     (case windowed_spectrum ext window xc yc process_subgrid of
        Inl e \<Rightarrow> Inl e
      | Inr (k, Phi, sigma_Phi) \<Rightarrow>
          minimize ext (\<lambda>x. min_func ext st x k Phi sigma_Phi) x0 bounds)"

fun optimise_loop ::
  "'g externals \<Rightarrow> prior_store \<Rightarrow> pyfloat \<Rightarrow> pyfloat list \<Rightarrow> pyfloat list \<Rightarrow> vec
     \<Rightarrow> ('g \<Rightarrow> error + 'g) option \<Rightarrow> nat list \<Rightarrow> vec list \<Rightarrow> error + vec list" where
  "optimise_loop ext st window xc_list yc_list x0 hook [] xOpt = Inr xOpt"
| "optimise_loop ext st window xc_list yc_list x0 hook (i # is) xOpt =
     (case optimise ext st window (xc_list ! i) (yc_list ! i) x0 hook of
        Inl e \<Rightarrow> Inl e
      | Inr r \<Rightarrow> optimise_loop ext st window xc_list yc_list x0 hook is (xOpt[i := r]))"

definition optimise_routine ::
  "'g externals \<Rightarrow> rng \<Rightarrow> prior_store \<Rightarrow> pyfloat \<Rightarrow> pyfloat list \<Rightarrow> pyfloat list \<Rightarrow> vec
     \<Rightarrow> ('g \<Rightarrow> error + 'g) option \<Rightarrow> error + pyfloat list list" where
  "optimise_routine ext r st window xc_list yc_list x0 hook =
     (let n = length xc_list in
      if n \<noteq> length yc_list then Inl ValueError
      else
        (case optimise_loop ext st window xc_list yc_list x0 hook [0..<n] (np_empty r n) of
           Inl e \<Rightarrow> Inl e
         | Inr xOpt \<Rightarrow> Inr (columns xOpt)))"

section \<open>The Metropolis-Hastings sampler\<close>

fun vec_add :: "vec \<Rightarrow> vec \<Rightarrow> vec" where
  "vec_add (a1, a2, a3, a4) (b1, b2, b3, b4) = (fadd a1 b1, fadd a2 b2, fadd a3 b3, fadd a4 b4)"

fun vec_mul :: "vec \<Rightarrow> vec \<Rightarrow> vec" where
  "vec_mul (a1, a2, a3, a4) (b1, b2, b3, b4) = (fmul a1 b1, fmul a2 b2, fmul a3 b3, fmul a4 b4)"

definition np_ones4 :: vec where
  "np_ones4 = (Fin 1, Fin 1, Fin 1, Fin 1)"

text \<open>
  One pass of the burn-in loop, for the objective \<open>f\<close> (\<^verbatim>\<open>min_func\<close> at the spectrum of the
  window): the proposal, the two tempered values, the comparison.
\<close>

definition burnin_step ::
  "(vec \<Rightarrow> error + pyfloat) \<Rightarrow> vec \<Rightarrow> vec \<Rightarrow> vec \<Rightarrow> error + vec" where
  "burnin_step f x_scale noise x0 =
     (let x1 = vec_add x0 (vec_mul noise x_scale) in
      case f x0 of
        Inl e \<Rightarrow> Inl e
      | Inr m0 \<Rightarrow>
          (case f x1 of
             Inl e \<Rightarrow> Inl e
           | Inr m1 \<Rightarrow>
               (let P0 = np_exp (fdiv (fneg m0) (Fin 1000));
                    P1 = np_exp (fdiv (fneg m1) (Fin 1000))
                in Inr (if fgt P1 P0 then x1 else x0))))"

fun burnin_loop ::
  "(vec \<Rightarrow> error + pyfloat) \<Rightarrow> vec \<Rightarrow> rng \<Rightarrow> nat list \<Rightarrow> vec \<times> vec list
     \<Rightarrow> error + (vec \<times> vec list)" where
  "burnin_loop f x_scale r [] s = Inr s"
| "burnin_loop f x_scale r (i # is) (x0, samples) =
     (case burnin_step f x_scale (random_normal4 r i) x0 of
        Inl e \<Rightarrow> Inl e
      | Inr x0' \<Rightarrow> burnin_loop f x_scale r is (x0', samples))"

text \<open>One pass of the sampling loop, up to the acceptance test; the loop records its result.\<close>

definition sampling_step ::
  "(vec \<Rightarrow> error + pyfloat) \<Rightarrow> vec \<Rightarrow> vec \<Rightarrow> pyfloat \<Rightarrow> vec \<Rightarrow> error + vec" where
  "sampling_step f x_scale noise u x0 =
     (let x1 = vec_add x0 (vec_mul noise x_scale) in
      case f x0 of
        Inl e \<Rightarrow> Inl e
      | Inr m0 \<Rightarrow>
          (case f x1 of
             Inl e \<Rightarrow> Inl e
           | Inr m1 \<Rightarrow>
               (let P0 = np_exp (fneg m0);
                    P1 = np_exp (fneg m1);
                    P0 = py_max P0 (rnd (1 / 10 ^ 99));
                    P = py_min (fdiv P1 P0) (Fin 1)
                in Inr (if fle u P then x1 else x0))))"

fun sampling_loop ::
  "(vec \<Rightarrow> error + pyfloat) \<Rightarrow> vec \<Rightarrow> rng \<Rightarrow> nat \<Rightarrow> nat list \<Rightarrow> vec \<times> vec list
     \<Rightarrow> error + (vec \<times> vec list)" where
  "sampling_loop f x_scale r burnin [] s = Inr s"
| "sampling_loop f x_scale r burnin (i # is) (x0, samples) =
     (case sampling_step f x_scale (random_normal4 r (burnin + i)) (random_rand r i) x0 of
        Inl e \<Rightarrow> Inl e
      | Inr x0' \<Rightarrow> sampling_loop f x_scale r burnin is (x0', samples[i := x0']))"

text \<open>
  \<^verbatim>\<open>np.empty((nsim, 4))\<close> refuses a negative \<^verbatim>\<open>nsim\<close> before anything else is done;
  \<^verbatim>\<open>range(burnin)\<close> is empty for a negative \<^verbatim>\<open>burnin\<close>.
\<close>

definition metropolis_hastings ::
  "'g externals \<Rightarrow> rng \<Rightarrow> prior_store \<Rightarrow> pyfloat \<Rightarrow> pyfloat \<Rightarrow> pyfloat \<Rightarrow> int \<Rightarrow> int
     \<Rightarrow> vec option \<Rightarrow> vec \<Rightarrow> ('g \<Rightarrow> error + 'g) option \<Rightarrow> error + pyfloat list list" where
  "metropolis_hastings ext r st window xc yc nsim burnin x_scale x0 process_subgrid =
     (if nsim < 0 then Inl ValueError
      else
        (let samples = np_empty r (nat nsim);
             x_scale = (case x_scale of None \<Rightarrow> np_ones4 | Some sc \<Rightarrow> sc)
         in case windowed_spectrum ext window xc yc process_subgrid of
              Inl e \<Rightarrow> Inl e
            | Inr (k, Phi, sigma_Phi) \<Rightarrow>
                (let f = (\<lambda>x. min_func ext st x k Phi sigma_Phi) in
                 case burnin_loop f x_scale r [0..<nat burnin] (x0, samples) of
                   Inl e \<Rightarrow> Inl e
                 | Inr s \<Rightarrow>
                     (case sampling_loop f x_scale r (nat burnin) [0..<nat nsim] s of
                        Inl e \<Rightarrow> Inl e
                      | Inr (x0', samples') \<Rightarrow> Inr (columns samples')))))"

section \<open>The sensitivity analysis\<close>

text \<open>
  \<^verbatim>\<open>use_keys\<close>: the keys of \<^verbatim>\<open>self.prior_pdf\<close> that hold a distribution, in the order of
  the dictionary.
\<close>

definition use_keys_of :: "prior_store \<Rightarrow> string list" where
  "use_keys_of st = [key \<leftarrow> map fst (prior_pdf st). map_of (prior_pdf st) key \<noteq> Some None]"

text \<open>
  The inner loop of a simulation: \<^verbatim>\<open>self.prior[key][0] = prior_pdf.rvs()\<close> for every
  used key. The draw is made first; the assignment fails on an empty argument list.
\<close>

fun perturb_priors :: "rng \<Rightarrow> nat \<Rightarrow> string list \<Rightarrow> prior_store \<Rightarrow> error option \<times> prior_store" where
  "perturb_priors r sim [] st = (None, st)"
| "perturb_priors r sim (key # keys) st =
     (case map_of (prior_pdf st) key of
        None \<Rightarrow> (Some KeyError, st)
      | Some None \<Rightarrow> (Some AttributeError, st)
      | Some (Some pdf) \<Rightarrow>
          (case rvs r sim key pdf of
             Inl e \<Rightarrow> (Some e, st)
           | Inr v \<Rightarrow>
               (case map_of (prior st) key of
                  None \<Rightarrow> (Some KeyError, st)
                | Some None \<Rightarrow> (Some TypeError, st)
                | Some (Some []) \<Rightarrow> (Some IndexError, st)
                | Some (Some (loc # rest)) \<Rightarrow>
                    perturb_priors r sim keys
                      (st\<lparr>prior := AList.update key (Some (v # rest)) (prior st)\<rparr>))))"

fun sensitivity_loop ::
  "'g externals \<Rightarrow> rng \<Rightarrow> string list \<Rightarrow> pyval \<Rightarrow> pyval \<Rightarrow> pyval \<Rightarrow> vec \<Rightarrow> nat list
     \<Rightarrow> prior_store \<times> vec list \<Rightarrow> error option \<times> prior_store \<times> vec list" where
  "sensitivity_loop ext r use_keys k Phi sigma_Phi x0 [] s = (None, s)"
| "sensitivity_loop ext r use_keys k Phi sigma_Phi x0 (sim # sims) (st, samples) =
     (case perturb_priors r sim use_keys st of
        (Some e, st') \<Rightarrow> (Some e, st', samples)
      | (None, st') \<Rightarrow>
          (case random_normal r sim Phi sigma_Phi of
             Inl e \<Rightarrow> (Some e, st', samples)
           | Inr rPhi \<Rightarrow>
               (case minimize ext (\<lambda>x. min_func ext st' x k rPhi sigma_Phi) x0 bounds of
                  Inl e \<Rightarrow> (Some e, st', samples)
                | Inr res \<Rightarrow>
                    sensitivity_loop ext r use_keys k Phi sigma_Phi x0 sims
                      (st', samples[sim := res]))))"

fun restore_priors :: "string list \<Rightarrow> prior_store \<Rightarrow> error option \<times> prior_store" where
  "restore_priors [] st = (None, st)"
| "restore_priors (key # keys) st =
     (case map_of (prior_pdf st) key of
        None \<Rightarrow> (Some KeyError, st)
      | Some None \<Rightarrow> (Some AttributeError, st)
      | Some (Some pdf) \<Rightarrow>
          restore_priors keys (st\<lparr>prior := AList.update key (Some (args pdf)) (prior st)\<rparr>))"

text \<open>
  The function ends with \<^verbatim>\<open>return yc_list(samples.T)\<close>. The name \<^verbatim>\<open>yc_list\<close> is neither a
  parameter nor a local of \<^verbatim>\<open>sensitivity\<close> (its centroid is \<^verbatim>\<open>xc, yc\<close>) and the module
  defines no such name, so the statement raises \<^verbatim>\<open>NameError\<close>. The result pairs the
  outcome of the call with the store of priors as the call leaves it.
\<close>

definition sensitivity ::
  "'g externals \<Rightarrow> rng \<Rightarrow> prior_store \<Rightarrow> pyfloat \<Rightarrow> pyfloat \<Rightarrow> pyfloat \<Rightarrow> int \<Rightarrow> vec
     \<Rightarrow> ('g \<Rightarrow> error + 'g) option \<Rightarrow> (error + pyfloat list list) \<times> prior_store" where
  "sensitivity ext r st window xc yc nsim x0 process_subgrid =
     (if nsim < 0 then (Inl ValueError, st)
      else
        (let samples = np_empty r (nat nsim);
             use_keys = use_keys_of st
         in case windowed_spectrum ext window xc yc process_subgrid of
              Inl e \<Rightarrow> (Inl e, st)
            | Inr (k, Phi, sigma_Phi) \<Rightarrow>
                (case sensitivity_loop ext r use_keys k Phi sigma_Phi x0 [0..<nat nsim]
                        (st, samples) of
                   (Some e, st', samples') \<Rightarrow> (Inl e, st')
                 | (None, st', samples') \<Rightarrow>
                     (case restore_priors use_keys st' of
                        (Some e, st'') \<Rightarrow> (Inl e, st'')
                      | (None, st'') \<Rightarrow> (Inl NameError, st'')))))"

section \<open>Predicates used in the statements\<close>

text \<open>
  A parameter has an active prior when \<^verbatim>\<open>self.prior[key]\<close> exists and is not \<^verbatim>\<open>None\<close>:
  the test \<^verbatim>\<open>objective_routine\<close> makes before it adds a penalty.
\<close>

definition registered :: "prior_store \<Rightarrow> string \<Rightarrow> bool" where
  "registered st key = (case map_of (prior st) key of Some (Some a) \<Rightarrow> True | _ \<Rightarrow> False)"

text \<open>
  What scipy's \<^verbatim>\<open>minimize\<close> promises for the \<^verbatim>\<open>bounds\<close> it is given: each component of
  the result lies between its lower and its upper bound, where \<^verbatim>\<open>None\<close> is no bound.
\<close>

definition within_bounds :: "bound list \<Rightarrow> vec \<Rightarrow> bool" where
  "within_bounds b x =
     (case x of (beta, zt, dz, C) \<Rightarrow>
        list_all2 (\<lambda>(lo, hi) v.
            (case lo of None \<Rightarrow> True | Some l \<Rightarrow> fle l v) \<and>
            (case hi of None \<Rightarrow> True | Some h \<Rightarrow> fle v h))
          b [beta, zt, dz, C])"

text \<open>
  The store as \<^verbatim>\<open>reset_priors\<close> and \<^verbatim>\<open>add_prior\<close> leave it: the keys of \<^verbatim>\<open>self.prior\<close> are
  distinct, and wherever \<^verbatim>\<open>self.prior_pdf\<close> holds a distribution, \<^verbatim>\<open>self.prior\<close> holds the
  list of its arguments.
\<close>

definition store_inv :: "prior_store \<Rightarrow> bool" where
  "store_inv st =
     (distinct (map fst (prior st)) \<and>
      (\<forall>key \<in> set (map fst (prior_pdf st)).
         case map_of (prior_pdf st) key of
           Some (Some pdf) \<Rightarrow> map_of (prior st) key = Some (Some (args pdf))
         | _ \<Rightarrow> True))"

section \<open>A small instance of the collaborators\<close>

text \<open>
  The examples below run the module on stand-ins for what it takes from outside. The
  forward model is linear in the depth to the top, \<open>C - 2 k zt\<close> at wavenumber \<open>k\<close>, and
  not a number for a negative thickness; the spectrum of every window has the single
  wavenumber 1 with uncertainty 1 and a given observed value; the minimiser evaluates
  the objective at the starting vector and returns that vector if it is within the bounds.
\<close>

definition toy_model :: "pyval \<Rightarrow> pyfloat \<Rightarrow> pyfloat \<Rightarrow> pyfloat \<Rightarrow> pyfloat \<Rightarrow> error + pyval" where
  "toy_model kh beta zt dz C =
     Inr (NdArray (map (\<lambda>k. if flt dz (Fin 0) then NaN else fsub C (fmul (Fin 2) (fmul k zt)))
                     (ravel kh)))"

definition toy_minimize :: "(vec \<Rightarrow> error + pyfloat) \<Rightarrow> vec \<Rightarrow> bound list \<Rightarrow> error + vec" where
  "toy_minimize f x0 b =
     (if within_bounds b x0 then (case f x0 of Inl e \<Rightarrow> Inl e | Inr m \<Rightarrow> Inr x0)
      else Inl ValueError)"

definition toy_ext :: "pyval \<Rightarrow> unit externals" where
  "toy_ext Phi =
     \<lparr>subgrid = (\<lambda>window xc yc. Inr ()),
      radial_spectrum = (\<lambda>sg. Inr (NdArray [Fin 1], Phi, NdArray [Fin 1])),
      bouligand2009 = toy_model,
      minimize = toy_minimize\<rparr>"

text \<open>The store after \<^verbatim>\<open>add_prior(beta=(2.5, 0.0))\<close>: a normal prior of scale zero.\<close>

definition degenerate_store :: prior_store where
  "degenerate_store =
     snd (add_prior reset_priors [(''beta'', Tuple [PyFloat (Fin (5/2)), PyFloat (Fin 0)])])"

text \<open>
  Random draws for one sampling pass: the proposal lowers the thickness by 11 and the
  uniform draw is \<^verbatim>\<open>0.0\<close>, the least value \<^verbatim>\<open>np.random.rand()\<close> can return.
\<close>

definition zero_draw_rng :: rng where
  "zero_draw_rng =
     \<lparr>random_normal4 = (\<lambda>i. (Fin 0, Fin 0, Fin (- 11), Fin 0)),
      random_rand = (\<lambda>i. Fin 0),
      rvs = (\<lambda>sim key pdf. Inl ExternalError),
      random_normal = (\<lambda>sim Phi sigma_Phi. Inr Phi),
      uninitialised = (\<lambda>i. (Fin 0, Fin 0, Fin 0, Fin 0))\<rparr>"

text \<open>
  Random draws for a run of one burn-in pass and one sampling pass: the first proposal
  lowers the depth to the top by 2, the second raises beta by 1; every uniform draw is 0.5.
\<close>

definition descent_rng :: rng where
  "descent_rng =
     \<lparr>random_normal4 =
        (\<lambda>i. if i = 0 then (Fin 0, Fin (- 2), Fin 0, Fin 0) else (Fin 1, Fin 0, Fin 0, Fin 0)),
      random_rand = (\<lambda>i. Fin (1/2)),
      rvs = (\<lambda>sim key pdf. Inl ExternalError),
      random_normal = (\<lambda>sim Phi sigma_Phi. Inr Phi),
      uninitialised = (\<lambda>i. (Fin 0, Fin 0, Fin 0, Fin 0))\<rparr>"

text \<open>
  Random draws for two sampling passes: the first proposal raises beta by 1, the second
  lowers the thickness by 11; every uniform draw is 0.5.
\<close>

definition accept_reject_rng :: rng where
  "accept_reject_rng =
     \<lparr>random_normal4 =
        (\<lambda>i. if i = 0 then (Fin 1, Fin 0, Fin 0, Fin 0) else (Fin 0, Fin 0, Fin (- 11), Fin 0)),
      random_rand = (\<lambda>i. Fin (1/2)),
      rvs = (\<lambda>sim key pdf. Inl ExternalError),
      random_normal = (\<lambda>sim Phi sigma_Phi. Inr Phi),
      uninitialised = (\<lambda>i. (Fin 0, Fin 0, Fin 0, Fin 0))\<rparr>"

text \<open>
  A second set of stand-ins, in which the centroid shows in the result: the observed
  value of a window is its \<open>x\<close> coordinate, and the minimiser returns the objective at the
  starting vector as the fourth component of its result.
\<close>

definition probe_ext :: "pyfloat externals" where
  "probe_ext =
     \<lparr>subgrid = (\<lambda>window xc yc. Inr xc),
      radial_spectrum = (\<lambda>sg. Inr (NdArray [Fin 1], NdArray [sg], NdArray [Fin 1])),
      bouligand2009 = toy_model,
      minimize =
        (\<lambda>f x0 b. case f x0 of Inl e \<Rightarrow> Inl e | Inr m \<Rightarrow> Inr (Fin 0, Fin 0, Fin 0, m))\<rparr>"

text \<open>
  Draws for the sensitivity analysis: every sample of a prior is 2.9 and the resampled
  spectrum is the observed one. Two stores: \<^verbatim>\<open>add_prior(beta=(3.0, 0.1))\<close>, and the same
  with \<^verbatim>\<open>zt=stats.norm(loc=1.0, scale=0.5)\<close>, a distribution frozen at keyword arguments,
  whose tuple of positional arguments is empty.
\<close>

definition prior_draw_rng :: rng where
  "prior_draw_rng =
     \<lparr>random_normal4 = (\<lambda>i. (Fin 0, Fin 0, Fin 0, Fin 0)),
      random_rand = (\<lambda>i. Fin (1/2)),
      rvs = (\<lambda>sim key pdf. Inr (NpFloat (Fin (29/10)))),
      random_normal = (\<lambda>sim Phi sigma_Phi. Inr Phi),
      uninitialised = (\<lambda>i. (Fin 0, Fin 0, Fin 0, Fin 0))\<rparr>"

definition beta_store :: prior_store where
  "beta_store =
     snd (add_prior reset_priors [(''beta'', Tuple [PyFloat (Fin 3), PyFloat (Fin (1/10))])])"

definition keyword_store :: prior_store where
  "keyword_store =
     snd (add_prior reset_priors
            [(''beta'', Tuple [PyFloat (Fin 3), PyFloat (Fin (1/10))]),
             (''zt'', Frozen \<lparr>dist = ''norm'', args = [],
                              kwds = [(''loc'', PyFloat (Fin 1)), (''scale'', PyFloat (Fin (1/2)))]\<rparr>)])"

section \<open>Rounding to double precision\<close>

text \<open>
  Facts about the rounding that the examples and the statements below rest on: what it
  does to a number that is a double already, how a rounding is evaluated once the binade
  of its argument is known, and where it underflows to zero.
\<close>

lemma round_even_of_int [simp]: "round_even (of_int n) = n"
  by (simp add: round_even_def)

lemma round_even_le: "q \<le> of_int n \<Longrightarrow> round_even q \<le> n"
proof -
  assume q: "q \<le> of_int n"
  have f: "\<lfloor>q\<rfloor> \<le> n" using q by (simp add: floor_le_iff)
  show ?thesis
  proof (cases "\<lfloor>q\<rfloor> = n")
    case True
    then have "q = of_int n" using q by (metis of_int_floor_le order_antisym)
    then show ?thesis by simp
  next
    case False
    then have "\<lfloor>q\<rfloor> + 1 \<le> n" using f by simp
    then show ?thesis by (simp add: round_even_def Let_def)
  qed
qed

lemma round_even_ge: "of_int n \<le> q \<Longrightarrow> n \<le> round_even q"
proof -
  assume "of_int n \<le> q"
  then have "n \<le> \<lfloor>q\<rfloor>" by (simp add: le_floor_iff)
  then show ?thesis by (simp add: round_even_def Let_def)
qed

lemma round_even_near: "\<bar>q - of_int n\<bar> < 1/2 \<Longrightarrow> round_even q = n"
proof -
  assume a: "\<bar>q - of_int n\<bar> < 1/2"
  show ?thesis
  proof (cases "of_int n \<le> q")
    case True
    then have "\<lfloor>q\<rfloor> = n" using a by (intro floor_unique) auto
    then show ?thesis using a True by (simp add: round_even_def Let_def)
  next
    case False
    then have "\<lfloor>q\<rfloor> = n - 1" using a by (intro floor_unique) auto
    then show ?thesis using a False by (simp add: round_even_def Let_def)
  qed
qed

lemma powr_powi: "(2::real) powr (of_int k) = 2 powi k"
  by (simp add: powr_real_of_int')

lemma powr_powi_Suc: "(2::real) powr (of_int k + 1) = 2 powi (k + 1)"
proof -
  have "(of_int k + 1 :: real) = of_int (k + 1)" by simp
  then show ?thesis by (simp only: powr_powi)
qed

lemma floor_log2_eq:
  assumes "2 powi k \<le> \<bar>x\<bar>" and "\<bar>x\<bar> < 2 powi (k + 1)"
  shows "\<lfloor>log 2 \<bar>x\<bar>\<rfloor> = k"
proof -
  have "(0::real) < 2 powi k" by simp
  then have pos: "0 < \<bar>x\<bar>" using assms(1) by linarith
  have "2 powr (of_int k) \<le> \<bar>x\<bar> \<and> \<bar>x\<bar> < 2 powr (of_int k + 1)"
    using assms by (simp only: powr_powi powr_powi_Suc)
  then show ?thesis
    using floor_log_eq_powr_iff [of "\<bar>x\<bar>" 2 k] pos by simp
qed

lemma log2_bounds:
  assumes "x \<noteq> 0"
  shows "2 powi \<lfloor>log 2 \<bar>x\<bar>\<rfloor> \<le> \<bar>x\<bar> \<and> \<bar>x\<bar> < 2 powi (\<lfloor>log 2 \<bar>x\<bar>\<rfloor> + 1)"
proof -
  have pos: "0 < \<bar>x\<bar>" using assms by simp
  have "2 powr (of_int \<lfloor>log 2 \<bar>x\<bar>\<rfloor>) \<le> \<bar>x\<bar> \<and> \<bar>x\<bar> < 2 powr (of_int \<lfloor>log 2 \<bar>x\<bar>\<rfloor> + 1)"
    using floor_log_eq_powr_iff [of "\<bar>x\<bar>" 2 "\<lfloor>log 2 \<bar>x\<bar>\<rfloor>"] pos by simp
  then show ?thesis
    by (simp only: powr_powi powr_powi_Suc)
qed


lemma pow2_less_imp: "(2::real) powi a < 2 powi b \<Longrightarrow> a < b"
proof (rule ccontr)
  assume lt: "(2::real) powi a < 2 powi b" and "\<not> a < b"
  then have "b \<le> a" by simp
  then have "(2::real) powi b \<le> 2 powi a" by (intro power_int_increasing) simp_all
  with lt show False by simp
qed

lemma pow2_mono: "a \<le> b \<Longrightarrow> (2::real) powi a \<le> 2 powi b"
  by (intro power_int_increasing) simp_all

lemma pow2_add: "(2::real) powi (a + b) = 2 powi a * 2 powi b"
  by (simp add: power_int_add)

lemma pow2_diff: "(2::real) powi (a - b) = 2 powi a / 2 powi b"
  by (simp add: power_int_diff)

lemma ulp_exp_ge: "- 1074 \<le> ulp_exp x"
  by (simp add: ulp_exp_def)

lemma ulp_exp_bound:
  assumes "x \<noteq> 0"
  shows "\<bar>x\<bar> < 2 powi (ulp_exp x + 53)"
proof -
  let ?L = "\<lfloor>log 2 \<bar>x\<bar>\<rfloor>"
  have "?L + 1 \<le> ulp_exp x + 53" by (simp add: ulp_exp_def)
  then have "(2::real) powi (?L + 1) \<le> 2 powi (ulp_exp x + 53)" by (rule pow2_mono)
  then show ?thesis using log2_bounds [OF assms] by linarith
qed

lemma round_even_abs_bound:
  assumes "x \<noteq> 0"
  shows "\<bar>round_even (x / 2 powi ulp_exp x)\<bar> \<le> 2 ^ 53"
proof -
  let ?e = "ulp_exp x"
  let ?q = "x / 2 powi ?e"
  have p: "(0::real) < 2 powi ?e" by simp
  have "\<bar>x\<bar> < 2 powi ?e * 2 powi 53"
    using ulp_exp_bound [OF assms] by (simp add: pow2_add)
  then have "\<bar>x\<bar> / 2 powi ?e < 2 powi 53"
    using p by (simp add: field_simps)
  moreover have "\<bar>?q\<bar> = \<bar>x\<bar> / 2 powi ?e" by simp
  ultimately have q: "\<bar>?q\<bar> < 2 powi 53" by linarith
  have c: "(2::real) powi 53 = of_int (2 ^ 53)" by simp
  have "?q \<le> of_int (2 ^ 53)" using q unfolding c by linarith
  then have u: "round_even ?q \<le> 2 ^ 53" by (rule round_even_le)
  have "of_int (- (2 ^ 53)) \<le> ?q" using q unfolding c of_int_minus by linarith
  then have l: "- (2 ^ 53) \<le> round_even ?q" by (rule round_even_ge)
  from u l show ?thesis by linarith
qed

lemma rnd_not_NaN [simp]: "rnd x \<noteq> NaN"
  by (simp add: rnd_def Let_def)

lemma rnd_zero [simp]: "rnd 0 = Fin 0"
  by (simp add: rnd_def)

lemma rnd_eval:
  assumes "2 powi k \<le> \<bar>x\<bar>" and "\<bar>x\<bar> < 2 powi (k + 1)" and "- 1022 \<le> k"
    and "round_even (x / 2 powi (k - 52)) = m"
    and "\<bar>of_int m * 2 powi (k - 52)\<bar> < (2::real) ^ 1024"
  shows "rnd x = Fin (of_int m * 2 powi (k - 52))"
proof -
  have "(0::real) < 2 powi k" by simp
  then have "0 < \<bar>x\<bar>" using assms(1) by linarith
  then have nz: "x \<noteq> 0" by auto
  have "\<lfloor>log 2 \<bar>x\<bar>\<rfloor> = k" using assms(1,2) by (rule floor_log2_eq)
  then have e: "ulp_exp x = k - 52" using assms(3) by (simp add: ulp_exp_def)
  show ?thesis
    using nz assms(4,5) by (simp add: rnd_def e Let_def)
qed

lemma rnd_exact:
  assumes "x = of_int m * 2 powi a" and "\<bar>m\<bar> < 2 ^ 53" and "- 1074 \<le> a"
    and "\<bar>x\<bar> < 2 ^ 1024"
  shows "rnd x = Fin x"
proof (cases "x = 0")
  case True
  then show ?thesis by simp
next
  case False
  let ?L = "\<lfloor>log 2 \<bar>x\<bar>\<rfloor>"
  let ?e = "ulp_exp x"
  have "\<bar>x\<bar> = of_int \<bar>m\<bar> * 2 powi a" by (simp add: assms(1) abs_mult)
  moreover have "(of_int \<bar>m\<bar> :: real) < 2 ^ 53" using assms(2) by (metis of_int_less_numeral_power_cancel_iff)
  ultimately have "\<bar>x\<bar> < 2 powi 53 * 2 powi a" by simp
  then have "\<bar>x\<bar> < 2 powi (a + 53)" by (simp add: pow2_add)
  then have "(2::real) powi ?L < 2 powi (a + 53)" using log2_bounds [OF False] by linarith
  then have "?L < a + 53" by (rule pow2_less_imp)
  then have ea: "?e \<le> a" using assms(3) by (simp add: ulp_exp_def)
  define j where "j = nat (a - ?e)"
  have a: "a = ?e + int j" using ea by (simp add: j_def)
  have "x / 2 powi ?e = of_int m * 2 powi (int j)"
    by (subst assms(1), subst a) (simp add: pow2_add)
  also have "\<dots> = of_int (m * 2 ^ j)" by simp
  finally have q: "x / 2 powi ?e = of_int (m * 2 ^ j)" .
  have "real_of_int (m * 2 ^ j) * 2 powi ?e = of_int m * (2 powi ?e * 2 powi (int j))"
    by simp
  also have "\<dots> = of_int m * 2 powi (?e + int j)" by (simp only: pow2_add)
  also have "\<dots> = x" using a assms(1) by simp
  finally have y: "of_int (round_even (x / 2 powi ?e)) * 2 powi ?e = x"
    unfolding q round_even_of_int .
  show ?thesis
    using False assms(4) by (simp add: rnd_def Let_def y)
qed

lemma rnd_of_int: "\<bar>n\<bar> < 2 ^ 53 \<Longrightarrow> rnd (of_int n) = Fin (of_int n)"
proof -
  assume n: "\<bar>n\<bar> < 2 ^ 53"
  have "\<bar>of_int n :: real\<bar> < 2 ^ 53" using n by (metis of_int_abs of_int_less_numeral_power_cancel_iff)
  also have "\<dots> < (2::real) ^ 1024" by simp
  finally have "\<bar>of_int n :: real\<bar> < 2 ^ 1024" .
  then show ?thesis
    using rnd_exact [of "of_int n" n 0] n by simp
qed


lemma rnd_small:
  assumes "\<bar>x\<bar> < 2 powi (- 1075)"
  shows "rnd x = Fin 0"
proof (cases "x = 0")
  case True
  then show ?thesis by simp
next
  case False
  let ?L = "\<lfloor>log 2 \<bar>x\<bar>\<rfloor>"
  have "(2::real) powi ?L < 2 powi (- 1075)"
    using log2_bounds [OF False] assms by linarith
  then have "?L < - 1075" by (rule pow2_less_imp)
  then have e: "ulp_exp x = - 1074" unfolding ulp_exp_def by linarith
  have "\<bar>x\<bar> < 2 powi (- 1074) * (1/2)"
  proof -
    have "(2::real) powi (- 1075) = 2 powi (- 1074) * 2 powi (- 1)"
      by (simp only: pow2_add [symmetric]) simp
    then show ?thesis using assms by simp
  qed
  then have "\<bar>x\<bar> / 2 powi (- 1074) < 1/2"
    by (simp add: field_simps)
  moreover have "\<bar>x / 2 powi (- 1074) - of_int 0\<bar> = \<bar>x\<bar> / 2 powi (- 1074)" by simp
  ultimately have "\<bar>x / 2 powi (- 1074) - of_int 0\<bar> < 1/2" by linarith
  then have "round_even (x / 2 powi (- 1074)) = 0" by (rule round_even_near)
  then show ?thesis using False by (simp add: rnd_def e Let_def)
qed


lemma rnd_nonneg:
  assumes "0 \<le> x"
  shows "rnd x = PInf \<or> (\<exists>y. rnd x = Fin y \<and> 0 \<le> y)"
proof (cases "x = 0")
  case True
  then show ?thesis by simp
next
  case False
  have "of_int 0 \<le> x / 2 powi ulp_exp x" using assms by simp
  then have "0 \<le> round_even (x / 2 powi ulp_exp x)" by (rule round_even_ge)
  then have "(0::real) \<le> of_int (round_even (x / 2 powi ulp_exp x)) * 2 powi ulp_exp x"
    by simp
  then show ?thesis using False assms by (auto simp: rnd_def Let_def)
qed


lemma rnd_pos:
  assumes "2 powi (- 1074) \<le> x"
  shows "rnd x = PInf \<or> (\<exists>y. rnd x = Fin y \<and> 0 < y)"
proof -
  have "(0::real) < 2 powi (- 1074)" by simp
  then have pos: "0 < x" using assms by linarith
  then have nz: "x \<noteq> 0" by simp
  let ?e = "ulp_exp x"
  let ?L = "\<lfloor>log 2 \<bar>x\<bar>\<rfloor>"
  have "2 powi ?e \<le> x"
  proof (cases "?e = - 1074")
    case True
    then show ?thesis using assms by simp
  next
    case False
    then have "?e \<le> ?L" by (simp add: ulp_exp_def max_def split: if_splits)
    then have "(2::real) powi ?e \<le> 2 powi ?L" by (rule pow2_mono)
    then show ?thesis using log2_bounds [OF nz] pos by linarith
  qed
  then have "1 \<le> x / 2 powi ?e" by (simp add: field_simps)
  then have "of_int 1 \<le> x / 2 powi ?e" by simp
  then have "1 \<le> round_even (x / 2 powi ?e)" by (rule round_even_ge)
  then have "(0::real) < of_int (round_even (x / 2 powi ?e)) * 2 powi ?e"
    by simp
  then show ?thesis using nz pos by (auto simp: rnd_def Let_def)
qed


lemma rnd_idem:
  assumes "rnd x = Fin y"
  shows "rnd y = Fin y"
proof (cases "x = 0")
  case True
  then show ?thesis using assms by auto
next
  case False
  let ?e = "ulp_exp x"
  let ?n = "round_even (x / 2 powi ?e)"
  from assms False have y: "y = of_int ?n * 2 powi ?e" and small: "\<bar>y\<bar> < 2 ^ 1024"
    by (auto simp: rnd_def Let_def split: if_splits)
  have n: "\<bar>?n\<bar> \<le> 2 ^ 53" by (rule round_even_abs_bound [OF False])
  show ?thesis
  proof (cases "\<bar>?n\<bar> < 2 ^ 53")
    case True
    show ?thesis by (rule rnd_exact [OF y True ulp_exp_ge small])
  next
    case False
    then have "\<bar>?n\<bar> = 2 ^ 53" using n by simp
    then consider "?n = 2 ^ 53" | "?n = - (2 ^ 53)" by (auto simp: abs_if split: if_splits)
    then obtain m :: int where m: "?n = 2 * m" and mb: "\<bar>m\<bar> < 2 ^ 53"
    proof cases
      case 1
      then have "?n = 2 * 2 ^ 52" "\<bar>2 ^ 52 :: int\<bar> < 2 ^ 53" by simp_all
      then show ?thesis using that by blast
    next
      case 2
      then have "?n = 2 * (- (2 ^ 52))" "\<bar>- (2 ^ 52) :: int\<bar> < 2 ^ 53" by simp_all
      then show ?thesis using that by blast
    qed
    have "y = of_int m * (2 powi ?e * 2 powi 1)" by (simp add: y m)
    then have y': "y = of_int m * 2 powi (?e + 1)" by (simp only: pow2_add)
    have "- 1074 \<le> ?e + 1" using ulp_exp_ge [of x] by simp
    then show ?thesis by (rule rnd_exact [OF y' mb _ small])
  qed
qed


lemma rnd_lt_one:
  assumes "1/2 \<le> x" and "x \<le> 1 - 1 / 2 ^ 53"
  shows "\<exists>q. rnd x = Fin q \<and> 0 < q \<and> q < 1"
proof -
  have lo: "2 powi (- 1) \<le> \<bar>x\<bar>" using assms(1) by simp
  have hi: "\<bar>x\<bar> < 2 powi (- 1 + 1)" using assms by simp
  have e: "(2::real) powi (- 1 - 52) = 1 / 2 ^ 53"
    by (simp add: power_int_minus_divide)
  define m where "m = round_even (x / 2 powi (- 1 - 52))"
  have q: "x / 2 powi (- 1 - 52) = x * 2 ^ 53" unfolding e by simp
  have "real_of_int (2 ^ 52) \<le> x * 2 ^ 53" using assms(1) by simp
  then have l: "2 ^ 52 \<le> m" unfolding m_def q by (rule round_even_ge)
  have "x * 2 ^ 53 \<le> real_of_int (2 ^ 53 - 1)" using assms(2) by (simp add: field_simps)
  then have u: "m \<le> 2 ^ 53 - 1" unfolding m_def q by (rule round_even_le)
  have m0: "0 < real_of_int m" using l by simp
  have "real_of_int m \<le> real_of_int (2 ^ 53 - 1)" using u by (simp only: of_int_le_iff)
  then have m1: "real_of_int m < 2 ^ 53" by simp
  have y0: "0 < real_of_int m / 2 ^ 53" using m0 by simp
  have y1: "real_of_int m / 2 ^ 53 < 1" using m1 by simp
  have "\<bar>real_of_int m / 2 ^ 53\<bar> < 1" using y0 y1 by simp
  also have "(1::real) < 2 ^ 1024" by (rule one_less_power) simp_all
  finally have b: "\<bar>real_of_int m * 2 powi (- 1 - 52)\<bar> < 2 ^ 1024" unfolding e by simp
  have "rnd x = Fin (real_of_int m * 2 powi (- 1 - 52))"
    by (rule rnd_eval [OF lo hi _ m_def [symmetric] b]) simp
  then have "rnd x = Fin (real_of_int m / 2 ^ 53)" unfolding e by simp
  then show ?thesis using y0 y1 by blast
qed


lemma rnd_numeral [simp]: "numeral n < (2::int) ^ 53 \<Longrightarrow> rnd (numeral n) = Fin (numeral n)"
  using rnd_of_int [of "numeral n"] by simp

lemma rnd_neg_numeral [simp]:
  "numeral n < (2::int) ^ 53 \<Longrightarrow> rnd (- numeral n) = Fin (- numeral n)"
  using rnd_of_int [of "- numeral n"] by simp

lemma rnd_one [simp]: "rnd 1 = Fin 1"
  using rnd_of_int [of 1] by simp

lemma rnd_half [simp]: "rnd (1/2) = Fin (1/2)"
  using rnd_exact [of "1/2" 1 "- 1"] by (simp add: power_int_minus_divide)

lemma exp_deep_underflow:
  assumes "x \<le> - 1076"
  shows "rnd (exp x) = Fin 0"
proof -
  have two: "2 \<le> exp (1::real)" using exp_ge_add_one_self [of 1] by simp
  have "(2::real) ^ 1076 \<le> exp 1 ^ 1076" using two by (rule power_mono) simp
  also have "exp (1::real) ^ 1076 = exp (of_nat 1076 * 1)" by (rule exp_of_nat_mult [symmetric])
  finally have big: "(2::real) ^ 1076 \<le> exp 1076" by simp
  have "exp x \<le> exp (- 1076)" using assms by simp
  also have "exp (- 1076 :: real) = inverse (exp 1076)" by (rule exp_minus)
  also have "\<dots> \<le> inverse (2 ^ 1076)" using big by (intro le_imp_inverse_le) simp_all
  also have "inverse ((2::real) ^ 1076) = 2 powi (- 1076)" by (simp add: power_int_minus)
  also have "(2::real) powi (- 1076) < 2 powi (- 1075)" by (rule power_int_strict_increasing) simp_all
  finally have "exp x < 2 powi (- 1075)" .
  then have "\<bar>exp x\<bar> < 2 powi (- 1075)" by simp
  then show ?thesis by (rule rnd_small)
qed

lemma rnd_exp_zero: "rnd (exp 0) = Fin 1"
  by simp

lemma rnd_evalI:
  assumes "2 powi k \<le> \<bar>x\<bar>" and "\<bar>x\<bar> < 2 powi (k + 1)" and "- 1022 \<le> k"
    and "round_even (x / 2 powi (k - 52)) = m"
    and "\<bar>of_int m * 2 powi (k - 52)\<bar> < (2::real) ^ 1024"
    and "y = of_int m * 2 powi (k - 52)"
  shows "rnd x = Fin y"
  using rnd_eval [OF assms(1-5)] assms(6) by simp



lemma lit_1e99: "rnd (10 ^ 99) = Fin (8236092143148846 * 2 ^ 276)"
  by (rule rnd_evalI [where k = 328 and m = 8236092143148846])
     (simp_all add: round_even_def Let_def power_int_minus_divide)

lemma lit_1e_99: "rnd (1 / 10 ^ 99) = Fin (4925250774549310 / 2 ^ 381)"
  by (rule rnd_evalI [where k = "- 329" and m = 4925250774549310])
     (simp_all add: round_even_def Let_def power_int_minus_divide)







lemma round_even_minus: "round_even (- q) = - round_even q"
proof (cases "\<bar>q - of_int (round_even q)\<bar> < 1/2")
  case True
  then have "\<bar>- q - of_int (- round_even q)\<bar> < 1/2"
    unfolding of_int_minus by linarith
  then show ?thesis by (rule round_even_near)
next
  case False
  define f where "f = \<lfloor>q\<rfloor>"
  have f: "of_int f \<le> q" "q < of_int f + 1" unfolding f_def by linarith+
  have d: "q - of_int f = 1/2"
    using False f unfolding round_even_def Let_def f_def [symmetric]
    by (auto split: if_splits)
  then have fl: "\<lfloor>- q\<rfloor> = - f - 1" by linarith
  have ev: "even (- f - 1) \<longleftrightarrow> odd f" by simp
  show ?thesis
    using d ev unfolding round_even_def Let_def f_def [symmetric] fl
    by (auto split: if_splits)
qed

lemma ulp_exp_minus [simp]: "ulp_exp (- x) = ulp_exp x"
  by (simp add: ulp_exp_def)

lemma rnd_minus: "rnd (- x) = fneg (rnd x)"
  by (simp add: rnd_def Let_def round_even_minus)

lemma is_double_rnd [simp]: "is_double (rnd x)"
  by (cases "rnd x") (simp_all add: is_double_def rnd_idem)

lemma is_double_special [simp]: "is_double PInf" "is_double NInf" "is_double NaN" "is_double (Fin 0)"
  by (simp_all add: is_double_def)

lemma is_double_fneg [simp]: "is_double (fneg a) = is_double a"
  by (cases a; cases "rnd (case a of Fin x \<Rightarrow> x | _ \<Rightarrow> 0)")
     (auto simp: is_double_def rnd_minus)

lemma is_double_fadd [simp]: "is_double (fadd a b)"
  by (cases a; cases b) simp_all

lemma is_double_fmul [simp]: "is_double (fmul a b)"
  by (cases a; cases b) simp_all

lemma is_double_fdiv [simp]: "is_double (fdiv a b)"
  by (cases a; cases b) simp_all

lemma is_double_fsqrt [simp]: "is_double (fsqrt a)"
  by (cases a) simp_all

lemma is_double_np_exp [simp]: "is_double (np_exp a)"
  by (cases a) simp_all

lemma fadd_zero_right: "is_double a \<Longrightarrow> fadd a (Fin 0) = a"
  by (cases a) (simp_all add: is_double_def)

lemma fadd_zero_left: "is_double a \<Longrightarrow> fadd (Fin 0) a = a"
  by (cases a) (simp_all add: is_double_def)

lemma rnd_abs: "rnd x = Fin x \<Longrightarrow> rnd \<bar>x\<bar> = Fin \<bar>x\<bar>"
  by (cases "0 \<le> x") (simp_all add: abs_if rnd_minus)

lemma fsqrt_square: "rnd x = Fin x \<Longrightarrow> fsqrt (Fin (x * x)) = Fin \<bar>x\<bar>"
  by (simp add: rnd_abs flip: power2_eq_square)

lemma sqrt_squares [simp]:
  "sqrt 9 = 3" "sqrt 16 = 4" "sqrt 25 = 5" "sqrt 36 = 6" "sqrt 49 = 7" "sqrt 64 = 8"
  by (rule real_sqrt_unique; simp)+

lemma abs_half_le: "0 \<le> x \<Longrightarrow> \<bar>x / 2\<bar> \<le> x" for x :: real
  by linarith

lemma rnd_numeral_half [simp]:
  assumes "numeral n < (2::int) ^ 53"
  shows "rnd (numeral n / 2) = Fin (numeral n / 2)"
proof (rule rnd_exact [where m = "numeral n" and a = "- 1"])
  show "numeral n / 2 = real_of_int (numeral n) * 2 powi - 1"
    by (simp add: power_int_minus_divide)
  show "\<bar>numeral n\<bar> < (2::int) ^ 53"
    using assms by simp
  have "real_of_int (numeral n) < real_of_int (2 ^ 53)"
    using assms by (simp only: of_int_less_iff)
  then have "(numeral n :: real) < 2 ^ 53"
    by (simp only: of_int_numeral of_int_power)
  moreover have "(2::real) ^ 53 < 2 ^ 1024"
    by (rule power_strict_increasing) simp_all
  moreover have "\<bar>numeral n / 2 :: real\<bar> \<le> numeral n"
    by (rule abs_half_le) (rule zero_le_numeral)
  ultimately show "\<bar>numeral n / 2\<bar> < (2::real) ^ 1024"
    by (rule_tac le_less_trans [OF _ less_trans])
qed simp

lemma rnd_neg_one [simp]: "rnd (- 1) = Fin (- 1)"
  using rnd_of_int [of "- 1"] by simp

section \<open>Registering priors\<close>


lemma registered_set_prior:
  "registered (set_prior st key pdf) k = (k = key \<or> registered st k)"
  by (simp add: registered_def set_prior_def update_conv')

text \<open>A successful prefix of the keywords can be run first.\<close>

lemma add_prior_append:
  "fst (add_prior st pre) = None \<Longrightarrow>
   add_prior st (pre @ rest) = add_prior (snd (add_prior st pre)) rest"
proof (induction pre arbitrary: st)
  case Nil
  then show ?case by simp
next
  case (Cons a pre)
  obtain key pr where a: "a = (key, pr)" by (cases a)
  from Cons.prems show ?case
    unfolding a
    by (auto simp: Cons.IH split: if_splits prior_arg.splits list.splits)
qed

lemma add_prior_registered:
  "add_prior st pre = (None, st') \<Longrightarrow> registered st' k = (k \<in> fst ` set pre \<or> registered st k)"
proof (induction pre arbitrary: st)
  case Nil
  then show ?case by simp
next
  case (Cons a pre)
  obtain key pr where a: "a = (key, pr)" by (cases a)
  from Cons.prems show ?case
    unfolding a
    by (auto simp: Cons.IH registered_set_prior split: if_splits prior_arg.splits list.splits)
qed

lemma add_prior_invalid:
  assumes "key \<notin> fst ` set (prior st) \<or> (\<forall>p s. pr \<noteq> Tuple [p, s]) \<and> (\<forall>pdf. pr \<noteq> Frozen pdf)"
  shows "add_prior st ((key, pr) # post) = (Some ValueError, st)"
  using assms by (auto split: prior_arg.splits list.splits)

text \<open>
  C10. When \<^verbatim>\<open>add_prior\<close> is given several keyword priors and one of them is invalid (a
  name that is not a key of the store, or a value that is neither a two-element tuple
  nor a frozen distribution), the call raises \<^verbatim>\<open>ValueError\<close> and the store is left as
  the keywords before the invalid one made it: each of them is registered, the ones
  after it are not looked at.
\<close>

theorem add_prior_not_atomic:
  assumes "add_prior st pre = (None, st')"
    and "key \<notin> fst ` set (prior st') \<or> (\<forall>p s. pr \<noteq> Tuple [p, s]) \<and> (\<forall>pdf. pr \<noteq> Frozen pdf)"
  shows "add_prior st (pre @ (key, pr) # post) = (Some ValueError, st')
         \<and> (\<forall>k \<in> fst ` set pre. registered st' k)"
proof -
  have "add_prior st (pre @ (key, pr) # post) = add_prior st' ((key, pr) # post)"
    using assms(1) add_prior_append [of st pre] by simp
  then have "add_prior st (pre @ (key, pr) # post) = (Some ValueError, st')"
    using add_prior_invalid [OF assms(2)] by simp
  moreover have "\<forall>k \<in> fst ` set pre. registered st' k"
    using add_prior_registered [OF assms(1)] by blast
  ultimately show ?thesis by simp
qed

text \<open>
  \<^verbatim>\<open>add_prior(beta=(3.0, 0.1), gamma=(1.0, 1.0), zt=(1.0, 1.0))\<close> on a fresh store raises at
  \<^verbatim>\<open>gamma\<close>; the prior of \<^verbatim>\<open>beta\<close>, absent before the call, stays registered.
\<close>

theorem add_prior_not_atomic_witness:
  "add_prior reset_priors
     [(''beta'', Tuple [PyFloat (Fin 3), PyFloat (Fin (1/10))]),
      (''gamma'', Tuple [PyFloat (Fin 1), PyFloat (Fin 1)]),
      (''zt'', Tuple [PyFloat (Fin 1), PyFloat (Fin 1)])]
   = (Some ValueError,
      set_prior reset_priors ''beta'' (stats_norm (PyFloat (Fin 3)) (PyFloat (Fin (1/10)))))
   \<and> registered
       (set_prior reset_priors ''beta'' (stats_norm (PyFloat (Fin 3)) (PyFloat (Fin (1/10)))))
       ''beta''
   \<and> \<not> registered reset_priors ''beta''"
proof -
  let ?st' = "set_prior reset_priors ''beta'' (stats_norm (PyFloat (Fin 3)) (PyFloat (Fin (1/10))))"
  have pre: "add_prior reset_priors [(''beta'', Tuple [PyFloat (Fin 3), PyFloat (Fin (1/10))])]
               = (None, ?st')"
    by (simp add: reset_priors_def)
  have bad: "''gamma'' \<notin> fst ` set (prior ?st') \<or>
             (\<forall>p s. Tuple [PyFloat (Fin 1), PyFloat (Fin 1)] \<noteq> Tuple [p, s]) \<and>
             (\<forall>pdf. Tuple [PyFloat (Fin 1), PyFloat (Fin 1)] \<noteq> Frozen pdf)"
    by (simp add: reset_priors_def set_prior_def)
  have "\<not> registered reset_priors ''beta''"
    by (simp add: registered_def reset_priors_def)
  then show ?thesis
    using add_prior_not_atomic [OF pre bad, of "[(''zt'', Tuple [PyFloat (Fin 1), PyFloat (Fin 1)])]"]
    by simp
qed

section \<open>The prior penalty\<close>





lemma penalty_exact:
  assumes "sigma \<noteq> 0" and "rnd (x - x0) = Fin (x - x0)"
    and "rnd ((x - x0) / sigma) = Fin ((x - x0) / sigma)"
    and "rnd (((x - x0) / sigma)\<^sup>2) = Fin (((x - x0) / sigma)\<^sup>2)"
  shows "fmul (Fin (1/2))
     (fmul (fsqrt (fmul (fdiv (fsub (Fin x) (Fin x0)) (Fin sigma))
                        (fdiv (fsub (Fin x) (Fin x0)) (Fin sigma))))
           (fsqrt (fmul (fdiv (fsub (Fin x) (Fin x0)) (Fin sigma))
                        (fdiv (fsub (Fin x) (Fin x0)) (Fin sigma)))))
     = rnd (1/2 * ((x - x0) / sigma)\<^sup>2)"
proof -
  let ?q = "(x - x0) / sigma"
  have d: "fsub (Fin x) (Fin x0) = Fin (x - x0)"
    using assms(2) by (simp add: fsub_def)
  have q: "fdiv (Fin (x - x0)) (Fin sigma) = Fin ?q"
    using assms(1,3) by simp
  have s: "fmul (Fin ?q) (Fin ?q) = Fin (?q * ?q)"
    using assms(4) by (simp add: power2_eq_square)
  have n: "fsqrt (Fin (?q * ?q)) = Fin \<bar>?q\<bar>"
    using assms(3) by (rule fsqrt_square)
  have p: "fmul (Fin \<bar>?q\<bar>) (Fin \<bar>?q\<bar>) = Fin (?q\<^sup>2)"
    using assms(4) by (simp add: power2_eq_square)
  show ?thesis
    unfolding d q s n p by simp
qed




section \<open>The sentinel of the penalised objective\<close>

lemma objective_loop_unregistered:
  "\<forall>k \<in> fst ` set kwargs. \<not> registered st k \<Longrightarrow> objective_loop (prior st) kwargs c = Inr c"
  by (induction kwargs arbitrary: c) (auto simp: registered_def split: option.splits)

lemma objective_function_is_double:
  "objective_function v a = Inr m \<Longrightarrow> is_double m"
  by (cases "(v, a)" rule: objective_function.cases) (auto split: sum.splits)

lemma objective_function_single:
  "objective_function (NdArray [x]) [NdArray [x0], NdArray [s]]
   = Inr (fmul (Fin (1/2))
       (fmul (fsqrt (fmul (fdiv (fsub x x0) s) (fdiv (fsub x x0) s)))
             (fsqrt (fmul (fdiv (fsub x x0) s) (fdiv (fsub x x0) s)))))"
  by (simp add: np_linalg_norm_def fsum_def fadd_zero_left)

lemma toy_misfit:
  assumes "rnd (a - b) = Fin (a - b)" and "rnd ((a - b)\<^sup>2) = Fin ((a - b)\<^sup>2)"
  shows "objective_function (NdArray [Fin a]) [NdArray [Fin b], NdArray [Fin 1]]
         = Inr (rnd (1/2 * (a - b)\<^sup>2))"
  unfolding objective_function_single
  using penalty_exact [of 1 a b] assms by simp

lemma toy_misfit_NaN:
  "objective_function (NdArray [NaN]) [NdArray [Fin b], NdArray [Fin 1]] = Inr NaN"
  unfolding objective_function_single by (simp add: fsub_def)


text \<open>
  C1, as the code has it. When the forward model returns and its misfit against the
  observed spectrum is not finite, \<^verbatim>\<open>min_func\<close> returns exactly \<^verbatim>\<open>1e99\<close>, a finite number,
  whatever the store of priors holds (the priors are not evaluated). When the misfit is
  finite, \<^verbatim>\<open>min_func\<close> returns the misfit itself if no parameter has a prior, and in general
  the sum of the misfit and the prior penalty as double precision gives it. Nothing is
  said of the finiteness of that sum: the penalty is not tested, and the sum of two
  finite numbers can overflow.
\<close>

theorem min_func_sentinel:
  assumes "bouligand2009 ext kh beta zt dz C = Inr Phi_syn"
    and "objective_function Phi_syn [Phi, sigma_Phi] = Inr misfit"
  shows "(\<not> isfinite misfit \<longrightarrow>
            min_func ext st (beta, zt, dz, C) kh Phi sigma_Phi = Inr (rnd (10 ^ 99)))
       \<and> isfinite (rnd (10 ^ 99))
       \<and> (isfinite misfit \<longrightarrow> (\<forall>k \<in> set [''beta'', ''zt'', ''dz'', ''C'']. \<not> registered st k) \<longrightarrow>
            min_func ext st (beta, zt, dz, C) kh Phi sigma_Phi = Inr misfit)
       \<and> (isfinite misfit \<longrightarrow>
            objective_routine st
              [(''beta'', NpFloat beta), (''zt'', NpFloat zt), (''dz'', NpFloat dz), (''C'', NpFloat C)]
              = Inr c \<longrightarrow>
            min_func ext st (beta, zt, dz, C) kh Phi sigma_Phi = Inr (fadd misfit c))"
proof (intro conjI impI)
  assume "\<not> isfinite misfit"
  then show "min_func ext st (beta, zt, dz, C) kh Phi sigma_Phi = Inr (rnd (10 ^ 99))"
    using assms by (simp add: min_func_def)
next
  show "isfinite (rnd (10 ^ 99))"
    unfolding lit_1e99 by simp
next
  assume fin: "isfinite misfit"
    and none: "\<forall>k \<in> set [''beta'', ''zt'', ''dz'', ''C'']. \<not> registered st k"
  have "objective_routine st
          [(''beta'', NpFloat beta), (''zt'', NpFloat zt), (''dz'', NpFloat dz), (''C'', NpFloat C)]
        = Inr (Fin 0)"
    unfolding objective_routine_def
    by (rule objective_loop_unregistered) (use none in simp)
  moreover have "fadd misfit (Fin 0) = misfit"
    using assms(2) by (intro fadd_zero_right objective_function_is_double)
  ultimately show "min_func ext st (beta, zt, dz, C) kh Phi sigma_Phi = Inr misfit"
    using assms fin by (simp add: min_func_def)
next
  assume fin: "isfinite misfit"
    and c: "objective_routine st
          [(''beta'', NpFloat beta), (''zt'', NpFloat zt), (''dz'', NpFloat dz), (''C'', NpFloat C)]
        = Inr c"
  then show "min_func ext st (beta, zt, dz, C) kh Phi sigma_Phi = Inr (fadd misfit c)"
    using assms by (simp add: min_func_def)
qed

text \<open>
  On the stand-in model with observed value 7: a negative thickness gives the sentinel
  although a degenerate prior is registered, and the default starting vector without
  priors gives its misfit, \<open>0.5 * (3 - 7)\<^sup>2 = 8\<close>.
\<close>

theorem min_func_sentinel_witness:
  "min_func (toy_ext (NdArray [Fin 7])) degenerate_store (Fin 3, Fin 1, Fin (- 1), Fin 5)
      (NdArray [Fin 1]) (NdArray [Fin 7]) (NdArray [Fin 1]) = Inr (rnd (10 ^ 99))
   \<and> min_func (toy_ext (NdArray [Fin 7])) reset_priors (Fin 3, Fin 1, Fin 10, Fin 5)
      (NdArray [Fin 1]) (NdArray [Fin 7]) (NdArray [Fin 1]) = Inr (Fin 8)"
proof -
  have f1: "bouligand2009 (toy_ext (NdArray [Fin 7])) (NdArray [Fin 1])
              (Fin 3) (Fin 1) (Fin (- 1)) (Fin 5) = Inr (NdArray [NaN])"
    by (simp add: toy_ext_def toy_model_def)
  have m1: "objective_function (NdArray [NaN]) [NdArray [Fin 7], NdArray [Fin 1]] = Inr NaN"
    by (rule toy_misfit_NaN)
  have f2: "bouligand2009 (toy_ext (NdArray [Fin 7])) (NdArray [Fin 1])
              (Fin 3) (Fin 1) (Fin 10) (Fin 5) = Inr (NdArray [Fin 3])"
    by (simp add: toy_ext_def toy_model_def fsub_def)
  have m2: "objective_function (NdArray [Fin 3]) [NdArray [Fin 7], NdArray [Fin 1]] = Inr (Fin 8)"
    using toy_misfit [of 3 7] by simp
  have none: "\<forall>k \<in> set [''beta'', ''zt'', ''dz'', ''C'']. \<not> registered reset_priors k"
    by (simp add: registered_def reset_priors_def)
  show ?thesis
    using min_func_sentinel [OF f1 m1, of degenerate_store]
          min_func_sentinel [OF f2 m2, of reset_priors] none
    by simp
qed

text \<open>
  The value is not always finite: with the prior \<^verbatim>\<open>beta=(2.5, 0.0)\<close> registered, the
  default starting vector has the finite misfit 8 and the penalty
  \<open>0.5 * ((3 - 2.5) / 0)\<^sup>2\<close>, which is infinite, and so is the value returned.
\<close>

theorem min_func_not_finite:
  "min_func (toy_ext (NdArray [Fin 7])) degenerate_store (Fin 3, Fin 1, Fin 10, Fin 5)
      (NdArray [Fin 1]) (NdArray [Fin 7]) (NdArray [Fin 1]) = Inr PInf
   \<and> \<not> isfinite PInf"
  by (simp add: min_func_def toy_ext_def toy_model_def degenerate_store_def reset_priors_def
      set_prior_def stats_norm_def objective_routine_def fsub_def np_linalg_norm_def fsum_def)

section \<open>Proposals into invalid regions\<close>

lemma np_exp_cases:
  "(\<exists>p. 0 \<le> p \<and> np_exp a = Fin p) \<or> np_exp a = PInf \<or> np_exp a = NaN"
proof (cases a)
  case (Fin x)
  then show ?thesis using rnd_nonneg [of "exp x"] by auto
qed simp_all

lemma np_exp_not_negative: "\<not> flt (np_exp a) (Fin 0)"
  using np_exp_cases [of a] by auto

text \<open>
  The sentinel divided by the temperature is the double \<open>- 8433758354584418 * 2\<^sup>2\<^sup>6\<^sup>6\<close>,
  about \<open>- 1e96\<close>: the exponential of it, and of the sentinel itself, underflows.
\<close>

lemma sentinel_tempered:
  "fdiv (fneg (rnd (10 ^ 99))) (Fin 1000) = Fin (- (8433758354584418 * 2 ^ 266))"
proof -
  have "rnd (- (8236092143148846 * 2 ^ 276) / 1000) = Fin (- (8433758354584418 * 2 ^ 266))"
    by (rule rnd_evalI [where k = 318 and m = "- 8433758354584418"])
       (simp_all add: round_even_def Let_def)
  then show ?thesis
    unfolding lit_1e99 by simp
qed

lemma np_exp_sentinel_tempered: "np_exp (fdiv (fneg (rnd (10 ^ 99))) (Fin 1000)) = Fin 0"
  unfolding sentinel_tempered np_exp.simps
  by (rule exp_deep_underflow) simp

lemma np_exp_sentinel: "np_exp (fneg (rnd (10 ^ 99))) = Fin 0"
  unfolding lit_1e99 fneg.simps np_exp.simps
  by (rule exp_deep_underflow) simp

lemma sentinel_ratio:
  "py_min (fdiv (Fin 0) (py_max (np_exp a) (rnd (1 / 10 ^ 99)))) (Fin 1)
     = (if np_exp a = NaN then NaN else Fin 0)"
  unfolding lit_1e_99
  using np_exp_cases [of a]
  by (auto simp: py_max_def py_min_def fgt_def)

lemma np_exp_fneg_NaN: "np_exp (fneg m) = NaN \<longleftrightarrow> m = NaN"
  by (cases m) auto

lemma sampling_step_eval:
  assumes "f x0 = Inr m0" and "f (vec_add x0 (vec_mul noise x_scale)) = Inr m1"
  shows "sampling_step f x_scale noise u x0
         = Inr (if fle u (py_min (fdiv (np_exp (fneg m1))
                                        (py_max (np_exp (fneg m0)) (rnd (1 / 10 ^ 99))))
                                  (Fin 1))
                then vec_add x0 (vec_mul noise x_scale) else x0)"
  unfolding sampling_step_def Let_def assms by (simp only: sum.case)

lemma burnin_step_eval:
  assumes "f x0 = Inr m0" and "f (vec_add x0 (vec_mul noise x_scale)) = Inr m1"
  shows "burnin_step f x_scale noise x0
         = Inr (if fgt (np_exp (fdiv (fneg m1) (Fin 1000))) (np_exp (fdiv (fneg m0) (Fin 1000)))
                then vec_add x0 (vec_mul noise x_scale) else x0)"
  unfolding burnin_step_def Let_def assms by (simp only: sum.case)

lemma sampling_step_sentinel:
  assumes "f x0 = Inr m0" and "f (vec_add x0 (vec_mul noise x_scale)) = Inr (rnd (10 ^ 99))"
  shows "sampling_step f x_scale noise u x0
         = Inr (if fle u (Fin 0) \<and> m0 \<noteq> NaN then vec_add x0 (vec_mul noise x_scale) else x0)"
  unfolding sampling_step_eval [OF assms] np_exp_sentinel sentinel_ratio np_exp_fneg_NaN
  by (auto simp: fle_def)

text \<open>
  C5, as the code has it. A proposal whose forward-model misfit is not finite has the
  objective \<^verbatim>\<open>1e99\<close>, and both of its pseudo-likelihoods underflow to 0. In a burn-in
  pass it is never adopted. In a sampling pass its acceptance probability is 0 (NaN when
  the objective of the current state is NaN), so it is rejected for every uniform draw
  above 0, and adopted when the draw is not above 0 and the current objective is a number:
  the test is \<^verbatim>\<open>u <= P\<close>.
\<close>

theorem sentinel_proposal:
  assumes "x1 = vec_add x0 (vec_mul noise x_scale)"
    and "x1 = (beta, zt, dz, C)"
    and "bouligand2009 ext k beta zt dz C = Inr Phi_syn"
    and "objective_function Phi_syn [Phi, sigma_Phi] = Inr misfit"
    and "\<not> isfinite misfit"
    and "f = (\<lambda>x. min_func ext st x k Phi sigma_Phi)"
    and "f x0 = Inr m0"
  shows "burnin_step f x_scale noise x0 = Inr x0
       \<and> sampling_step f x_scale noise u x0 = Inr (if fle u (Fin 0) \<and> m0 \<noteq> NaN then x1 else x0)
       \<and> (\<forall>p. u = Fin p \<and> 0 < p \<longrightarrow> sampling_step f x_scale noise u x0 = Inr x0)"
proof -
  have "f x1 = Inr (rnd (10 ^ 99))"
    using assms(2-6) by (simp add: min_func_def)
  then have m1: "f (vec_add x0 (vec_mul noise x_scale)) = Inr (rnd (10 ^ 99))"
    unfolding assms(1) .
  have b: "burnin_step f x_scale noise x0 = Inr x0"
    unfolding burnin_step_eval [OF assms(7) m1] np_exp_sentinel_tempered
    by (simp only: fgt_def np_exp_not_negative if_False)
  have s: "sampling_step f x_scale noise u x0 = Inr (if fle u (Fin 0) \<and> m0 \<noteq> NaN then x1 else x0)"
    unfolding sampling_step_sentinel [OF assms(7) m1] assms(1) ..
  have "\<forall>p. u = Fin p \<and> 0 < p \<longrightarrow> sampling_step f x_scale noise u x0 = Inr x0"
    unfolding s by (auto simp: fle_def)
  with b s show ?thesis by simp
qed

lemma toy_windowed_spectrum:
  "windowed_spectrum (toy_ext Phi) window xc yc None = Inr (NdArray [Fin 1], Phi, NdArray [Fin 1])"
  by (simp add: windowed_spectrum_def toy_ext_def)

text \<open>
  The objective of the stand-in model without priors, where the numbers involved are
  doubles: the sentinel for a negative thickness, and half the square of the residual.
\<close>

lemma toy_min_func_sentinel:
  assumes "d < 0"
  shows "min_func (toy_ext Phi') reset_priors (beta, zt, Fin d, C)
      (NdArray [Fin 1]) (NdArray [Fin p]) (NdArray [Fin 1]) = Inr (rnd (10 ^ 99))"
proof -
  have syn: "bouligand2009 (toy_ext Phi') (NdArray [Fin 1]) beta zt (Fin d) C
             = Inr (NdArray [NaN])"
    using assms by (simp add: toy_ext_def toy_model_def)
  show ?thesis
    unfolding min_func_def prod.case syn sum.case toy_misfit_NaN by simp
qed

lemma toy_min_func:
  assumes "0 \<le> d" and "rnd z = Fin z" and "rnd (2 * z) = Fin (2 * z)"
    and "rnd (c - 2 * z) = Fin (c - 2 * z)"
    and "rnd (c - 2 * z - p) = Fin (c - 2 * z - p)"
    and "rnd ((c - 2 * z - p)\<^sup>2) = Fin ((c - 2 * z - p)\<^sup>2)"
  shows "min_func (toy_ext Phi') reset_priors (beta, Fin z, Fin d, Fin c)
      (NdArray [Fin 1]) (NdArray [Fin p]) (NdArray [Fin 1])
   = Inr (case rnd (1/2 * (c - 2 * z - p)\<^sup>2) of Fin m \<Rightarrow> Fin m | _ \<Rightarrow> rnd (10 ^ 99))"
proof -
  have syn: "bouligand2009 (toy_ext Phi') (NdArray [Fin 1]) beta (Fin z) (Fin d) (Fin c)
             = Inr (NdArray [Fin (c - 2 * z)])"
    using assms(1-4) by (simp add: toy_ext_def toy_model_def fsub_def)
  have pen: "objective_routine reset_priors
          [(''beta'', NpFloat beta), (''zt'', NpFloat (Fin z)), (''dz'', NpFloat (Fin d)),
           (''C'', NpFloat (Fin c))] = Inr (Fin 0)"
    by (simp add: objective_routine_def reset_priors_def)
  show ?thesis
    unfolding min_func_def prod.case syn sum.case toy_misfit [OF assms(5,6)] pen
    by (cases "rnd (1/2 * (c - 2 * z - p)\<^sup>2)") (simp_all add: rnd_idem)
qed

text \<open>
  On the stand-in model with observed value 3, from the default starting vector: the
  proposal with thickness \<open>-1\<close> is rejected by the burn-in pass and, for the draw 0.5, by
  the sampling pass.
\<close>

theorem sentinel_proposal_witness:
  "burnin_step
     (\<lambda>x. min_func (toy_ext (NdArray [Fin 3])) reset_priors x (NdArray [Fin 1]) (NdArray [Fin 3]) (NdArray [Fin 1]))
     np_ones4 (Fin 0, Fin 0, Fin (- 11), Fin 0) (Fin 3, Fin 1, Fin 10, Fin 5)
   = Inr (Fin 3, Fin 1, Fin 10, Fin 5)
   \<and> sampling_step
     (\<lambda>x. min_func (toy_ext (NdArray [Fin 3])) reset_priors x (NdArray [Fin 1]) (NdArray [Fin 3]) (NdArray [Fin 1]))
     np_ones4 (Fin 0, Fin 0, Fin (- 11), Fin 0) (Fin (1/2)) (Fin 3, Fin 1, Fin 10, Fin 5)
   = Inr (Fin 3, Fin 1, Fin 10, Fin 5)"
proof -
  let ?f = "\<lambda>x. min_func (toy_ext (NdArray [Fin 3])) reset_priors x (NdArray [Fin 1]) (NdArray [Fin 3]) (NdArray [Fin 1])"
  have x1: "(Fin 3, Fin 1, Fin (- 1), Fin 5) = vec_add (Fin 3, Fin 1, Fin 10, Fin 5) (vec_mul (Fin 0, Fin 0, Fin (- 11), Fin 0) np_ones4)"
    by (simp add: np_ones4_def)
  have fwd: "bouligand2009 (toy_ext (NdArray [Fin 3])) (NdArray [Fin 1]) (Fin 3) (Fin 1) (Fin (- 1)) (Fin 5)
        = Inr (NdArray [NaN])"
    by (simp add: toy_ext_def toy_model_def)
  have mis: "objective_function (NdArray [NaN]) [NdArray [Fin 3], NdArray [Fin 1]] = Inr NaN"
    by (rule toy_misfit_NaN)
  have m0: "?f (Fin 3, Fin 1, Fin 10, Fin 5) = Inr (Fin 0)"
    by (simp add: toy_min_func)
  show ?thesis
    using sentinel_proposal [OF x1 refl fwd mis _ refl m0, of "Fin (1/2)"]
    by (simp add: fle_def)
qed

text \<open>
  The same proposal is accepted by the sampling pass when the uniform draw is \<^verbatim>\<open>0.0\<close>:
  a run with one sample and no burn-in records it.
\<close>

theorem sentinel_proposal_accepted:
  "min_func (toy_ext (NdArray [Fin 3])) reset_priors (Fin 3, Fin 1, Fin (- 1), Fin 5)
      (NdArray [Fin 1]) (NdArray [Fin 3]) (NdArray [Fin 1]) = Inr (rnd (10 ^ 99))
   \<and> metropolis_hastings (toy_ext (NdArray [Fin 3])) zero_draw_rng reset_priors
        (Fin 1) (Fin 0) (Fin 0) 1 0 None (Fin 3, Fin 1, Fin 10, Fin 5) None
      = Inr [[Fin 3], [Fin 1], [Fin (- 1)], [Fin 5]]"
proof -
  let ?f = "\<lambda>x. min_func (toy_ext (NdArray [Fin 3])) reset_priors x (NdArray [Fin 1]) (NdArray [Fin 3]) (NdArray [Fin 1])"
  have x1: "vec_add (Fin 3, Fin 1, Fin 10, Fin 5) (vec_mul (Fin 0, Fin 0, Fin (- 11), Fin 0) np_ones4)
            = (Fin 3, Fin 1, Fin (- 1), Fin 5)"
    by (simp add: np_ones4_def)
  have m0: "?f (Fin 3, Fin 1, Fin 10, Fin 5) = Inr (Fin 0)"
    by (simp add: toy_min_func)
  have m1: "?f (Fin 3, Fin 1, Fin (- 1), Fin 5) = Inr (rnd (10 ^ 99))"
    by (rule toy_min_func_sentinel) simp
  have step: "sampling_step ?f np_ones4 (Fin 0, Fin 0, Fin (- 11), Fin 0) (Fin 0)
                (Fin 3, Fin 1, Fin 10, Fin 5) = Inr (Fin 3, Fin 1, Fin (- 1), Fin 5)"
    using sampling_step_sentinel [of ?f, OF m0, of "(Fin 0, Fin 0, Fin (- 11), Fin 0)" np_ones4 "Fin 0"]
    unfolding x1 using m1 by (simp add: fle_def)
  have "metropolis_hastings (toy_ext (NdArray [Fin 3])) zero_draw_rng reset_priors
        (Fin 1) (Fin 0) (Fin 0) 1 0 None (Fin 3, Fin 1, Fin 10, Fin 5) None
      = Inr [[Fin 3], [Fin 1], [Fin (- 1)], [Fin 5]]"
    unfolding metropolis_hastings_def toy_windowed_spectrum
    using step by (simp add: zero_draw_rng_def np_empty_def columns_def)
  with m1 show ?thesis by simp
qed

section \<open>The burn-in phase\<close>

lemma burnin_loop_samples:
  "burnin_loop f sc r ixs (x0, samples) = Inr (x', samples') \<Longrightarrow> samples' = samples"
  by (induction ixs arbitrary: x0) (auto split: sum.splits)

lemma burnin_loop_no_draw:
  "burnin_loop f sc (r\<lparr>random_rand := u'\<rparr>) ixs (x0, samples) = burnin_loop f sc r ixs (x0, samples)"
  by (induction ixs arbitrary: x0) (auto split: sum.splits)

lemma burnin_loop_append:
  "burnin_loop f sc r (ixs @ jxs) (x0, samples)
   = (case burnin_loop f sc r ixs (x0, samples) of
        Inl e \<Rightarrow> Inl e
      | Inr s \<Rightarrow> burnin_loop f sc r jxs s)"
  by (induction ixs arbitrary: x0) (auto split: sum.splits)

lemma burnin_step_Inr:
  assumes "burnin_step f sc noise x0 = Inr y"
  shows "\<exists>m0 m1. f x0 = Inr m0 \<and> f (vec_add x0 (vec_mul noise sc)) = Inr m1 \<and>
           y = (if fgt (np_exp (fdiv (fneg m1) (Fin 1000))) (np_exp (fdiv (fneg m0) (Fin 1000)))
                then vec_add x0 (vec_mul noise sc) else x0)"
  using assms
  by (auto simp: burnin_step_def Let_def split: sum.splits
           simp del: np_exp.simps fdiv.simps fneg.simps)

lemma burnin_step_total:
  assumes "\<forall>x. \<exists>m. f x = Inr m"
  shows "\<exists>y. burnin_step f sc noise x0 = Inr y"
proof -
  obtain m0 where "f x0 = Inr m0" using assms by blast
  moreover obtain m1 where "f (vec_add x0 (vec_mul noise sc)) = Inr m1" using assms by blast
  ultimately show ?thesis
    unfolding burnin_step_def Let_def by (simp only: sum.case) (rule exI, rule refl)
qed

lemma burnin_loop_total:
  assumes "\<forall>x. \<exists>m. f x = Inr m"
  shows "\<exists>x'. burnin_loop f sc r ixs (x0, samples) = Inr (x', samples)"
proof (induction ixs arbitrary: x0)
  case Nil
  show ?case by (rule exI [of _ x0]) simp
next
  case (Cons i ixs)
  obtain y where "burnin_step f sc (random_normal4 r i) x0 = Inr y"
    using burnin_step_total [OF assms] by blast
  then show ?case using Cons.IH [of y] by simp
qed

text \<open>The states of a burn-in loop that returns, one after each pass.\<close>

lemma burnin_loop_chain:
  assumes "burnin_loop f sc r [0..<n] (x0, samples) = Inr (xn, samples')"
  shows "\<exists>xs. length xs = n + 1 \<and> xs ! 0 = x0 \<and> xs ! n = xn
           \<and> (\<forall>i<n. burnin_step f sc (random_normal4 r i) (xs ! i) = Inr (xs ! (i + 1)))"
  using assms
proof (induction n arbitrary: xn samples')
  case 0
  then show ?case by (intro exI [of _ "[x0]"]) simp
next
  case (Suc n)
  from Suc.prems obtain y s1 where
    loop: "burnin_loop f sc r [0..<n] (x0, samples) = Inr (y, s1)"
    and last: "burnin_loop f sc r [n] (y, s1) = Inr (xn, samples')"
    by (auto simp: burnin_loop_append split: sum.splits)
  from last have step: "burnin_step f sc (random_normal4 r n) y = Inr xn"
    by (auto split: sum.splits)
  from Suc.IH [OF loop] obtain xs where
    xs: "length xs = n + 1" "xs ! 0 = x0" "xs ! n = y"
      "\<forall>i<n. burnin_step f sc (random_normal4 r i) (xs ! i) = Inr (xs ! (i + 1))"
    by blast
  have "\<forall>i<Suc n. burnin_step f sc (random_normal4 r i) ((xs @ [xn]) ! i)
          = Inr ((xs @ [xn]) ! (i + 1))"
  proof (intro allI impI)
    fix i assume i: "i < Suc n"
    show "burnin_step f sc (random_normal4 r i) ((xs @ [xn]) ! i) = Inr ((xs @ [xn]) ! (i + 1))"
    proof (cases "i = n")
      case True
      then show ?thesis using xs(1,3) step by (simp add: nth_append)
    next
      case False
      then have "i < n" using i by simp
      then show ?thesis using xs(1,4) by (simp add: nth_append)
    qed
  qed
  moreover have "length (xs @ [xn]) = Suc n + 1" "(xs @ [xn]) ! 0 = x0" "(xs @ [xn]) ! Suc n = xn"
    using xs(1,2) by (simp_all add: nth_append)
  ultimately show ?case by blast
qed

text \<open>
  C7. The burn-in loop makes no uniform draw: its result is the same whatever
  \<^verbatim>\<open>np.random.rand\<close> would return. It returns when the objective evaluates everywhere, and
  it hands the array of samples on as it found it. When it returns after \<open>n\<close> passes, the
  states \<open>xs\<^sub>0 = x0, \<dots>, xs\<^sub>n\<close> it went through are linked by the rule of the code: in
  pass \<open>i\<close> the proposal is \<open>x1 = xs\<^sub>i + noise\<^sub>i * x_scale\<close>, the two pseudo-likelihoods are
  \<open>P0 = exp (- objective xs\<^sub>i / 1000)\<close> and \<open>P1 = exp (- objective x1 / 1000)\<close>, and the next
  state is \<open>x1\<close> if \<open>P1 > P0\<close> and \<open>xs\<^sub>i\<close> otherwise.
\<close>

theorem burnin_phase:
  "burnin_loop f x_scale (r\<lparr>random_rand := u'\<rparr>) [0..<n] (x0, samples)
     = burnin_loop f x_scale r [0..<n] (x0, samples)
   \<and> ((\<forall>x. \<exists>m. f x = Inr m) \<longrightarrow>
        (\<exists>xn. burnin_loop f x_scale r [0..<n] (x0, samples) = Inr (xn, samples)))
   \<and> (\<forall>xn samples'. burnin_loop f x_scale r [0..<n] (x0, samples) = Inr (xn, samples') \<longrightarrow>
        samples' = samples
        \<and> (\<exists>xs. length xs = n + 1 \<and> xs ! 0 = x0 \<and> xs ! n = xn
             \<and> (\<forall>i<n. \<exists>m0 m1.
                   f (xs ! i) = Inr m0
                 \<and> f (vec_add (xs ! i) (vec_mul (random_normal4 r i) x_scale)) = Inr m1
                 \<and> xs ! (i + 1) =
                     (if fgt (np_exp (fdiv (fneg m1) (Fin 1000)))
                             (np_exp (fdiv (fneg m0) (Fin 1000)))
                      then vec_add (xs ! i) (vec_mul (random_normal4 r i) x_scale)
                      else xs ! i))))"
proof (intro conjI allI impI)
  show "burnin_loop f x_scale (r\<lparr>random_rand := u'\<rparr>) [0..<n] (x0, samples)
          = burnin_loop f x_scale r [0..<n] (x0, samples)"
    by (rule burnin_loop_no_draw)
next
  assume "\<forall>x. \<exists>m. f x = Inr m"
  then show "\<exists>xn. burnin_loop f x_scale r [0..<n] (x0, samples) = Inr (xn, samples)"
    by (rule burnin_loop_total)
next
  fix xn samples'
  assume "burnin_loop f x_scale r [0..<n] (x0, samples) = Inr (xn, samples')"
  then show "samples' = samples"
    by (rule burnin_loop_samples)
next
  fix xn samples'
  assume "burnin_loop f x_scale r [0..<n] (x0, samples) = Inr (xn, samples')"
  from burnin_loop_chain [OF this] obtain xs where
    xs: "length xs = n + 1" "xs ! 0 = x0" "xs ! n = xn"
      "\<forall>i<n. burnin_step f x_scale (random_normal4 r i) (xs ! i) = Inr (xs ! (i + 1))"
    by blast
  have "\<forall>i<n. \<exists>m0 m1.
          f (xs ! i) = Inr m0
        \<and> f (vec_add (xs ! i) (vec_mul (random_normal4 r i) x_scale)) = Inr m1
        \<and> xs ! (i + 1) =
            (if fgt (np_exp (fdiv (fneg m1) (Fin 1000))) (np_exp (fdiv (fneg m0) (Fin 1000)))
             then vec_add (xs ! i) (vec_mul (random_normal4 r i) x_scale)
             else xs ! i)"
    using xs(4) burnin_step_Inr [of f x_scale] by blast
  with xs(1-3) show "\<exists>xs. length xs = n + 1 \<and> xs ! 0 = x0 \<and> xs ! n = xn
             \<and> (\<forall>i<n. \<exists>m0 m1.
                   f (xs ! i) = Inr m0
                 \<and> f (vec_add (xs ! i) (vec_mul (random_normal4 r i) x_scale)) = Inr m1
                 \<and> xs ! (i + 1) =
                     (if fgt (np_exp (fdiv (fneg m1) (Fin 1000)))
                             (np_exp (fdiv (fneg m0) (Fin 1000)))
                      then vec_add (xs ! i) (vec_mul (random_normal4 r i) x_scale)
                      else xs ! i))"
    by blast
qed

lemma toy_min_func_total:
  "\<forall>x. \<exists>m. min_func (toy_ext Phi') reset_priors x (NdArray [Fin 1]) (NdArray [Fin p]) (NdArray [Fin 1]) = Inr m"
  by (auto simp: min_func_def toy_ext_def toy_model_def objective_routine_def reset_priors_def)

text \<open>
  The tempered value of the objective 8 is below that of the objective 0: \<^verbatim>\<open>-8/1000\<close> is
  the double \<open>- 4611686018427388 / 2\<^sup>5\<^sup>9\<close>, between \<open>- 1/64\<close> and \<open>- 1/128\<close>, and its
  exponential rounds to a double below 1.
\<close>

lemma tempered_descent:
  "fgt (np_exp (fdiv (fneg (Fin 0)) (Fin 1000))) (np_exp (fdiv (fneg (Fin 8)) (Fin 1000)))"
proof -
  let ?y = "- (4611686018427388 / 2 ^ 59) :: real"
  have q: "rnd (- 8 / 1000) = Fin ?y"
    by (rule rnd_evalI [where k = "- 7" and m = "- 4611686018427388"])
       (simp_all add: round_even_def Let_def power_int_minus_divide)
  have lo: "1/2 \<le> exp ?y"
    using exp_ge_add_one_self [of ?y] by simp
  have "1 + - ?y \<le> exp (- ?y)"
    by (rule exp_ge_add_one_self)
  then have "129 / 128 \<le> exp (- ?y)"
    by simp
  then have "exp ?y \<le> 128 / 129"
    unfolding exp_minus [of ?y] using exp_gt_zero [of ?y] by (simp add: field_simps)
  then have hi: "exp ?y \<le> 1 - 1 / 2 ^ 53"
    by simp
  obtain p where p: "rnd (exp ?y) = Fin p" "p < 1"
    using rnd_lt_one [OF lo hi] by blast
  have "np_exp (fdiv (fneg (Fin 8)) (Fin 1000)) = Fin p"
    using q p(1) by simp
  moreover have "np_exp (fdiv (fneg (Fin 0)) (Fin 1000)) = Fin 1"
    by simp
  ultimately show ?thesis
    using p(2) by (simp add: fgt_def)
qed

lemma fgt_irrefl: "\<not> fgt a a"
  by (cases a) (simp_all add: fgt_def)

text \<open>
  On the stand-in model with observed value 7, two passes from the default starting
  vector, which has the objective 8. The first proposal, with depth \<open>-1\<close>, has the
  objective 0 and is adopted; the second, with beta raised by 1, has the objective 0 of
  the state it is drawn from and is not adopted. The two rows of the sample array stay
  as they were, also when all the uniform draws are changed.
\<close>

theorem burnin_phase_witness:
  "burnin_loop
     (\<lambda>x. min_func (toy_ext (NdArray [Fin 7])) reset_priors x (NdArray [Fin 1]) (NdArray [Fin 7]) (NdArray [Fin 1]))
     np_ones4 descent_rng [0..<2] ((Fin 3, Fin 1, Fin 10, Fin 5), np_empty descent_rng 2)
   = Inr ((Fin 3, Fin (- 1), Fin 10, Fin 5), np_empty descent_rng 2)
   \<and> burnin_loop
     (\<lambda>x. min_func (toy_ext (NdArray [Fin 7])) reset_priors x (NdArray [Fin 1]) (NdArray [Fin 7]) (NdArray [Fin 1]))
     np_ones4 (descent_rng\<lparr>random_rand := (\<lambda>i. Fin 0)\<rparr>) [0..<2]
     ((Fin 3, Fin 1, Fin 10, Fin 5), np_empty descent_rng 2)
   = Inr ((Fin 3, Fin (- 1), Fin 10, Fin 5), np_empty descent_rng 2)
   \<and> (\<exists>xs. length xs = 3 \<and> xs ! 0 = (Fin 3, Fin 1, Fin 10, Fin 5)
          \<and> xs ! 1 = (Fin 3, Fin (- 1), Fin 10, Fin 5)
          \<and> xs ! 2 = (Fin 3, Fin (- 1), Fin 10, Fin 5))"
proof -
  let ?f = "\<lambda>x. min_func (toy_ext (NdArray [Fin 7])) reset_priors x (NdArray [Fin 1]) (NdArray [Fin 7]) (NdArray [Fin 1])"
  let ?x0 = "(Fin 3, Fin 1, Fin 10, Fin 5)"
  let ?x1 = "(Fin 3, Fin (- 1), Fin 10, Fin 5)"
  let ?x2 = "(Fin 4, Fin (- 1), Fin 10, Fin 5)"
  have n0: "random_normal4 descent_rng 0 = (Fin 0, Fin (- 2), Fin 0, Fin 0)"
    and n1: "random_normal4 descent_rng (Suc 0) = (Fin 1, Fin 0, Fin 0, Fin 0)"
    by (simp_all add: descent_rng_def)
  have p1: "vec_add ?x0 (vec_mul (Fin 0, Fin (- 2), Fin 0, Fin 0) np_ones4) = ?x1"
    and p2: "vec_add ?x1 (vec_mul (Fin 1, Fin 0, Fin 0, Fin 0) np_ones4) = ?x2"
    by (simp_all add: np_ones4_def)
  have m0: "?f ?x0 = Inr (Fin 8)"
    and m1: "?f ?x1 = Inr (Fin 0)"
    and m2: "?f ?x2 = Inr (Fin 0)"
    by (simp_all add: toy_min_func)
  have s0: "burnin_step ?f np_ones4 (Fin 0, Fin (- 2), Fin 0, Fin 0) ?x0 = Inr ?x1"
    using burnin_step_eval [of ?f ?x0 "Fin 8" "(Fin 0, Fin (- 2), Fin 0, Fin 0)" np_ones4 "Fin 0"]
    unfolding p1 using m0 m1 tempered_descent by simp
  have s1: "burnin_step ?f np_ones4 (Fin 1, Fin 0, Fin 0, Fin 0) ?x1 = Inr ?x1"
    using burnin_step_eval [of ?f ?x1 "Fin 0" "(Fin 1, Fin 0, Fin 0, Fin 0)" np_ones4 "Fin 0"]
    unfolding p2 using m1 m2 fgt_irrefl by simp
  have upt2: "[0..<2] = [0, Suc 0]"
    by (simp add: upt_rec)
  have run: "burnin_loop ?f np_ones4 descent_rng [0..<2] (?x0, np_empty descent_rng 2)
             = Inr (?x1, np_empty descent_rng 2)"
    unfolding upt2 by (simp add: n0 n1 s0 s1)
  note inst = burnin_phase [where f = ?f and x_scale = np_ones4 and r = descent_rng
      and u' = "\<lambda>i. Fin 0" and n = 2 and ?x0.0 = ?x0 and samples = "np_empty descent_rng 2"]
  from inst run obtain xs where
    xs: "length xs = 2 + 1" "xs ! 0 = ?x0" "xs ! 2 = ?x1"
      "\<forall>i<2. \<exists>m0 m1.
          ?f (xs ! i) = Inr m0
        \<and> ?f (vec_add (xs ! i) (vec_mul (random_normal4 descent_rng i) np_ones4)) = Inr m1
        \<and> xs ! (i + 1) =
            (if fgt (np_exp (fdiv (fneg m1) (Fin 1000))) (np_exp (fdiv (fneg m0) (Fin 1000)))
             then vec_add (xs ! i) (vec_mul (random_normal4 descent_rng i) np_ones4)
             else xs ! i)"
    by blast
  from xs(4) obtain a b where
    "?f (xs ! 0) = Inr a"
    "?f (vec_add (xs ! 0) (vec_mul (random_normal4 descent_rng 0) np_ones4)) = Inr b"
    "xs ! (0 + 1) =
       (if fgt (np_exp (fdiv (fneg b) (Fin 1000))) (np_exp (fdiv (fneg a) (Fin 1000)))
        then vec_add (xs ! 0) (vec_mul (random_normal4 descent_rng 0) np_ones4)
        else xs ! 0)"
    by (metis zero_less_numeral)
  then have "xs ! 1 = ?x1"
    unfolding xs(2) n0 p1 m0 m1 using tempered_descent by simp
  with xs(1-3) have "\<exists>xs. length xs = 3 \<and> xs ! 0 = ?x0 \<and> xs ! 1 = ?x1 \<and> xs ! 2 = ?x1"
    by (intro exI [of _ xs]) simp
  moreover have "burnin_loop ?f np_ones4 (descent_rng\<lparr>random_rand := (\<lambda>i. Fin 0)\<rparr>) [0..<2]
       (?x0, np_empty descent_rng 2) = Inr (?x1, np_empty descent_rng 2)"
    using inst run by simp
  moreover have "\<exists>xn. burnin_loop ?f np_ones4 descent_rng [0..<2] (?x0, np_empty descent_rng 2)
       = Inr (xn, np_empty descent_rng 2)"
    using inst toy_min_func_total [of "NdArray [Fin 7]" 7] by blast
  ultimately show ?thesis
    using run by simp
qed

section \<open>The sampling phase\<close>

lemma sampling_step_Inr:
  assumes "sampling_step f sc noise u x0 = Inr y"
  shows "\<exists>m0 m1. f x0 = Inr m0 \<and> f (vec_add x0 (vec_mul noise sc)) = Inr m1 \<and>
           y = (if fle u (py_min (fdiv (np_exp (fneg m1))
                                   (py_max (np_exp (fneg m0)) (rnd (1 / 10 ^ 99)))) (Fin 1))
                then vec_add x0 (vec_mul noise sc) else x0)"
  using assms
  by (auto simp: sampling_step_def Let_def split: sum.splits simp del: np_exp.simps fdiv.simps fneg.simps)

lemma sampling_step_total:
  assumes "\<forall>x. \<exists>m. f x = Inr m"
  shows "\<exists>y. sampling_step f sc noise u x0 = Inr y"
proof -
  obtain m0 where "f x0 = Inr m0" using assms by blast
  moreover obtain m1 where "f (vec_add x0 (vec_mul noise sc)) = Inr m1" using assms by blast
  ultimately show ?thesis
    unfolding sampling_step_def Let_def by (simp only: sum.case) (rule exI, rule refl)
qed

lemma sampling_loop_total:
  assumes "\<forall>x. \<exists>m. f x = Inr m"
  shows "\<exists>s. sampling_loop f sc r b ixs (x0, samples) = Inr s"
proof (induction ixs arbitrary: x0 samples)
  case Nil
  show ?case by (rule exI [of _ "(x0, samples)"]) simp
next
  case (Cons i ixs)
  obtain y where "sampling_step f sc (random_normal4 r (b + i)) (random_rand r i) x0 = Inr y"
    using sampling_step_total [OF assms] by blast
  then show ?case using Cons.IH [of y "samples[i := y]"] by simp
qed

lemma sampling_loop_chain:
  assumes "sampling_loop f sc r b [lo..<hi] (x0, samples) = Inr (x', samples')"
    and "hi \<le> length samples"
  shows "length samples' = length samples
       \<and> (\<forall>j<lo. samples' ! j = samples ! j)
       \<and> (\<forall>i. lo \<le> i \<and> i < hi \<longrightarrow>
             sampling_step f sc (random_normal4 r (b + i)) (random_rand r i)
               (if i = lo then x0 else samples' ! (i - 1)) = Inr (samples' ! i))"
  using assms
proof (induction "hi - lo" arbitrary: lo x0 samples)
  case 0
  then show ?case by auto
next
  case (Suc n)
  then have lt: "lo < hi" by simp
  then have upt: "[lo..<hi] = lo # [Suc lo..<hi]" by (rule upt_conv_Cons)
  from Suc.prems(1) obtain y where
    y: "sampling_step f sc (random_normal4 r (b + lo)) (random_rand r lo) x0 = Inr y"
    and rest: "sampling_loop f sc r b [Suc lo..<hi] (y, samples[lo := y]) = Inr (x', samples')"
    unfolding upt by (auto split: sum.splits)
  have n: "n = hi - Suc lo" using Suc.hyps(2) by simp
  have len: "hi \<le> length (samples[lo := y])" using Suc.prems(2) by simp
  note IH = Suc.hyps(1) [OF n rest len]
  have l: "length samples' = length samples" using IH by simp
  have at_lo: "samples' ! lo = y"
    using IH lt Suc.prems(2) by simp
  have before: "\<forall>j<lo. samples' ! j = samples ! j"
    using IH by simp
  have chain: "\<forall>i. lo \<le> i \<and> i < hi \<longrightarrow>
             sampling_step f sc (random_normal4 r (b + i)) (random_rand r i)
               (if i = lo then x0 else samples' ! (i - 1)) = Inr (samples' ! i)"
  proof (intro allI impI)
    fix i assume i: "lo \<le> i \<and> i < hi"
    show "sampling_step f sc (random_normal4 r (b + i)) (random_rand r i)
               (if i = lo then x0 else samples' ! (i - 1)) = Inr (samples' ! i)"
    proof (cases "i = lo")
      case True
      then show ?thesis using y at_lo by simp
    next
      case False
      then have "Suc lo \<le> i \<and> i < hi" using i by simp
      then have "sampling_step f sc (random_normal4 r (b + i)) (random_rand r i)
               (if i = Suc lo then y else samples' ! (i - 1)) = Inr (samples' ! i)"
        using IH by blast
      moreover have "(if i = Suc lo then y else samples' ! (i - 1)) = samples' ! (i - 1)"
        using at_lo by auto
      ultimately show ?thesis using False by simp
    qed
  qed
  from l before chain show ?case by blast
qed

lemma length_columns: "length (columns rows) = 4 \<and> (\<forall>c \<in> set (columns rows). length c = length rows)"
  by (simp add: columns_def)


lemma length_np_empty [simp]: "length (np_empty r n) = n"
  by (simp add: np_empty_def)

lemma metropolis_hastings_Inr:
  assumes "metropolis_hastings ext r st window xc yc nsim burnin x_scale x0 hook = Inr cols"
  shows "\<exists>k Phi sigma_Phi xb xf rows.
           0 \<le> nsim
         \<and> windowed_spectrum ext window xc yc hook = Inr (k, Phi, sigma_Phi)
         \<and> burnin_loop (\<lambda>x. min_func ext st x k Phi sigma_Phi)
              (case x_scale of None \<Rightarrow> np_ones4 | Some sc \<Rightarrow> sc) r [0..<nat burnin]
              (x0, np_empty r (nat nsim)) = Inr (xb, np_empty r (nat nsim))
         \<and> sampling_loop (\<lambda>x. min_func ext st x k Phi sigma_Phi)
              (case x_scale of None \<Rightarrow> np_ones4 | Some sc \<Rightarrow> sc) r (nat burnin) [0..<nat nsim]
              (xb, np_empty r (nat nsim)) = Inr (xf, rows)
         \<and> cols = columns rows"
proof -
  from assms have nsim: "0 \<le> nsim"
    by (simp add: metropolis_hastings_def split: if_splits)
  from assms nsim obtain k Phi sigma_Phi where
    spec: "windowed_spectrum ext window xc yc hook = Inr (k, Phi, sigma_Phi)"
    by (auto simp: metropolis_hastings_def Let_def split: sum.splits)
  let ?f = "\<lambda>x. min_func ext st x k Phi sigma_Phi"
  let ?sc = "case x_scale of None \<Rightarrow> np_ones4 | Some sc \<Rightarrow> sc"
  from assms nsim spec obtain xb sb where
    burn: "burnin_loop ?f ?sc r [0..<nat burnin] (x0, np_empty r (nat nsim)) = Inr (xb, sb)"
    by (auto simp: metropolis_hastings_def Let_def split: sum.splits)
  have sb: "sb = np_empty r (nat nsim)"
    using burn by (rule burnin_loop_samples)
  from assms nsim spec burn obtain xf rows where
    "sampling_loop ?f ?sc r (nat burnin) [0..<nat nsim] (xb, sb) = Inr (xf, rows)"
    and "cols = columns rows"
    by (auto simp: metropolis_hastings_def Let_def split: sum.splits)
  with nsim spec burn sb show ?thesis by blast
qed

text \<open>
  C6. A call of \<^verbatim>\<open>metropolis_hastings\<close> with \<open>nsim \<ge> 0\<close> whose spectrum is obtained and whose
  objective evaluates everywhere returns. Whenever the call returns, the result is the
  four columns of \<open>nsim\<close> recorded rows, each column of length \<open>nsim\<close>; row \<open>i\<close> is obtained
  from the previous row (from the state after burn-in for the first row) and the
  proposal \<open>x1\<close> drawn from it: with \<open>P0 = max (exp (- objective prev)) 1e-99\<close>,
  \<open>P1 = exp (- objective x1)\<close> and \<open>P = min (P1 / P0) 1\<close>, the row is \<open>x1\<close> if the uniform
  draw \<open>u\<close> satisfies \<open>u \<le> P\<close>, and the previous row otherwise.
\<close>

theorem sampling_phase:
  "(0 \<le> nsim \<and> windowed_spectrum ext window xc yc hook = Inr (k, Phi, sigma_Phi)
      \<and> (\<forall>x. \<exists>m. min_func ext st x k Phi sigma_Phi = Inr m)
    \<longrightarrow> (\<exists>cols. metropolis_hastings ext r st window xc yc nsim burnin x_scale x0 hook = Inr cols))
   \<and> (\<forall>cols. metropolis_hastings ext r st window xc yc nsim burnin x_scale x0 hook = Inr cols \<longrightarrow>
        (\<exists>k Phi sigma_Phi xb rows.
            windowed_spectrum ext window xc yc hook = Inr (k, Phi, sigma_Phi)
          \<and> burnin_loop (\<lambda>x. min_func ext st x k Phi sigma_Phi)
               (case x_scale of None \<Rightarrow> np_ones4 | Some sc \<Rightarrow> sc) r [0..<nat burnin]
               (x0, np_empty r (nat nsim)) = Inr (xb, np_empty r (nat nsim))
          \<and> cols = columns rows \<and> length cols = 4
          \<and> (\<forall>c \<in> set cols. int (length c) = nsim) \<and> int (length rows) = nsim
          \<and> (\<forall>i < nat nsim.
                let prev = (if i = 0 then xb else rows ! (i - 1));
                    x1 = vec_add prev (vec_mul (random_normal4 r (nat burnin + i))
                           (case x_scale of None \<Rightarrow> np_ones4 | Some sc \<Rightarrow> sc));
                    u = random_rand r i
                in \<exists>m0 m1.
                     min_func ext st prev k Phi sigma_Phi = Inr m0
                   \<and> min_func ext st x1 k Phi sigma_Phi = Inr m1
                   \<and> rows ! i =
                       (if fle u (py_min (fdiv (np_exp (fneg m1))
                                           (py_max (np_exp (fneg m0)) (rnd (1 / 10 ^ 99))))
                                   (Fin 1))
                        then x1 else prev))))"
proof (intro conjI impI allI)
  assume a: "0 \<le> nsim \<and> windowed_spectrum ext window xc yc hook = Inr (k, Phi, sigma_Phi)
      \<and> (\<forall>x. \<exists>m. min_func ext st x k Phi sigma_Phi = Inr m)"
  let ?f = "\<lambda>x. min_func ext st x k Phi sigma_Phi"
  let ?sc = "case x_scale of None \<Rightarrow> np_ones4 | Some sc \<Rightarrow> sc"
  from a have tot: "\<forall>x. \<exists>m. ?f x = Inr m" by simp
  obtain xb where
    burn: "burnin_loop ?f ?sc r [0..<nat burnin] (x0, np_empty r (nat nsim)) = Inr (xb, np_empty r (nat nsim))"
    using burnin_loop_total [OF tot] by blast
  obtain s where
    samp: "sampling_loop ?f ?sc r (nat burnin) [0..<nat nsim] (xb, np_empty r (nat nsim)) = Inr s"
    using sampling_loop_total [OF tot] by blast
  obtain xf rows where s: "s = (xf, rows)" by (cases s)
  have "metropolis_hastings ext r st window xc yc nsim burnin x_scale x0 hook = Inr (columns rows)"
    using a burn samp s by (simp add: metropolis_hastings_def Let_def)
  then show "\<exists>cols. metropolis_hastings ext r st window xc yc nsim burnin x_scale x0 hook = Inr cols"
    by blast
next
  fix cols
  assume run: "metropolis_hastings ext r st window xc yc nsim burnin x_scale x0 hook = Inr cols"
  let ?sc = "case x_scale of None \<Rightarrow> np_ones4 | Some sc \<Rightarrow> sc"
  from metropolis_hastings_Inr [OF run] obtain k Phi sigma_Phi xb xf rows where
    nsim: "0 \<le> nsim"
    and spec: "windowed_spectrum ext window xc yc hook = Inr (k, Phi, sigma_Phi)"
    and burn: "burnin_loop (\<lambda>x. min_func ext st x k Phi sigma_Phi) ?sc r [0..<nat burnin]
              (x0, np_empty r (nat nsim)) = Inr (xb, np_empty r (nat nsim))"
    and samp: "sampling_loop (\<lambda>x. min_func ext st x k Phi sigma_Phi) ?sc r (nat burnin) [0..<nat nsim]
              (xb, np_empty r (nat nsim)) = Inr (xf, rows)"
    and cols: "cols = columns rows"
    by blast
  let ?f = "\<lambda>x. min_func ext st x k Phi sigma_Phi"
  have chain: "length rows = length (np_empty r (nat nsim))
       \<and> (\<forall>j<0. rows ! j = np_empty r (nat nsim) ! j)
       \<and> (\<forall>i. 0 \<le> i \<and> i < nat nsim \<longrightarrow>
             sampling_step ?f ?sc (random_normal4 r (nat burnin + i)) (random_rand r i)
               (if i = 0 then xb else rows ! (i - 1)) = Inr (rows ! i))"
    by (rule sampling_loop_chain [OF samp]) simp
  then have len: "length rows = nat nsim" by simp
  have steps: "\<forall>i < nat nsim.
                let prev = (if i = 0 then xb else rows ! (i - 1));
                    x1 = vec_add prev (vec_mul (random_normal4 r (nat burnin + i)) ?sc);
                    u = random_rand r i
                in \<exists>m0 m1.
                     min_func ext st prev k Phi sigma_Phi = Inr m0
                   \<and> min_func ext st x1 k Phi sigma_Phi = Inr m1
                   \<and> rows ! i =
                       (if fle u (py_min (fdiv (np_exp (fneg m1))
                                           (py_max (np_exp (fneg m0)) (rnd (1 / 10 ^ 99))))
                                   (Fin 1))
                        then x1 else prev)"
  proof (intro allI impI)
    fix i assume "i < nat nsim"
    then have "sampling_step ?f ?sc (random_normal4 r (nat burnin + i)) (random_rand r i)
               (if i = 0 then xb else rows ! (i - 1)) = Inr (rows ! i)"
      using chain by simp
    from sampling_step_Inr [OF this] show "let prev = (if i = 0 then xb else rows ! (i - 1));
                    x1 = vec_add prev (vec_mul (random_normal4 r (nat burnin + i)) ?sc);
                    u = random_rand r i
                in \<exists>m0 m1.
                     min_func ext st prev k Phi sigma_Phi = Inr m0
                   \<and> min_func ext st x1 k Phi sigma_Phi = Inr m1
                   \<and> rows ! i =
                       (if fle u (py_min (fdiv (np_exp (fneg m1))
                                           (py_max (np_exp (fneg m0)) (rnd (1 / 10 ^ 99))))
                                   (Fin 1))
                        then x1 else prev)"
      unfolding Let_def by blast
  qed
  have shape: "length cols = 4 \<and> (\<forall>c \<in> set cols. int (length c) = nsim) \<and> int (length rows) = nsim"
    using length_columns [of rows] len nsim cols by simp
  show "\<exists>k Phi sigma_Phi xb rows.
            windowed_spectrum ext window xc yc hook = Inr (k, Phi, sigma_Phi)
          \<and> burnin_loop (\<lambda>x. min_func ext st x k Phi sigma_Phi)
               (case x_scale of None \<Rightarrow> np_ones4 | Some sc \<Rightarrow> sc) r [0..<nat burnin]
               (x0, np_empty r (nat nsim)) = Inr (xb, np_empty r (nat nsim))
          \<and> cols = columns rows \<and> length cols = 4
          \<and> (\<forall>c \<in> set cols. int (length c) = nsim) \<and> int (length rows) = nsim
          \<and> (\<forall>i < nat nsim.
                let prev = (if i = 0 then xb else rows ! (i - 1));
                    x1 = vec_add prev (vec_mul (random_normal4 r (nat burnin + i))
                           (case x_scale of None \<Rightarrow> np_ones4 | Some sc \<Rightarrow> sc));
                    u = random_rand r i
                in \<exists>m0 m1.
                     min_func ext st prev k Phi sigma_Phi = Inr m0
                   \<and> min_func ext st x1 k Phi sigma_Phi = Inr m1
                   \<and> rows ! i =
                       (if fle u (py_min (fdiv (np_exp (fneg m1))
                                           (py_max (np_exp (fneg m0)) (rnd (1 / 10 ^ 99))))
                                   (Fin 1))
                        then x1 else prev))"
    using spec burn cols shape steps by blast
qed


text \<open>Between two states of objective 0 the acceptance probability is 1.\<close>

lemma accept_equal_zero:
  "py_min (fdiv (np_exp (fneg (Fin 0))) (py_max (np_exp (fneg (Fin 0))) (rnd (1 / 10 ^ 99))))
     (Fin 1) = Fin 1"
  unfolding lit_1e_99 by (simp add: py_max_def py_min_def fgt_def)

text \<open>
  On the stand-in model with observed value 3, two sampling passes from the default
  starting vector: the first proposal (same objective) is accepted, the second (negative
  thickness) is rejected, so the second row repeats the first.
\<close>

theorem sampling_phase_witness:
  "metropolis_hastings (toy_ext (NdArray [Fin 3])) accept_reject_rng reset_priors
        (Fin 1) (Fin 0) (Fin 0) 2 0 None (Fin 3, Fin 1, Fin 10, Fin 5) None
      = Inr [[Fin 4, Fin 4], [Fin 1, Fin 1], [Fin 10, Fin 10], [Fin 5, Fin 5]]
   \<and> (\<forall>x. \<exists>m. min_func (toy_ext (NdArray [Fin 3])) reset_priors x
                  (NdArray [Fin 1]) (NdArray [Fin 3]) (NdArray [Fin 1]) = Inr m)
   \<and> (\<exists>rows. [[Fin 4, Fin 4], [Fin 1, Fin 1], [Fin 10, Fin 10], [Fin 5, Fin 5]] = columns rows
         \<and> int (length rows) = 2)"
proof -
  let ?f = "\<lambda>x. min_func (toy_ext (NdArray [Fin 3])) reset_priors x (NdArray [Fin 1]) (NdArray [Fin 3]) (NdArray [Fin 1])"
  let ?x0 = "(Fin 3, Fin 1, Fin 10, Fin 5)"
  let ?x1 = "(Fin 4, Fin 1, Fin 10, Fin 5)"
  let ?x2 = "(Fin 4, Fin 1, Fin (- 1), Fin 5)"
  have n0: "random_normal4 accept_reject_rng 0 = (Fin 1, Fin 0, Fin 0, Fin 0)"
    and n1: "random_normal4 accept_reject_rng (Suc 0) = (Fin 0, Fin 0, Fin (- 11), Fin 0)"
    and u: "random_rand accept_reject_rng i = Fin (1/2)" for i
    by (simp_all add: accept_reject_rng_def)
  have p1: "vec_add ?x0 (vec_mul (Fin 1, Fin 0, Fin 0, Fin 0) np_ones4) = ?x1"
    and p2: "vec_add ?x1 (vec_mul (Fin 0, Fin 0, Fin (- 11), Fin 0) np_ones4) = ?x2"
    by (simp_all add: np_ones4_def)
  have m0: "?f ?x0 = Inr (Fin 0)"
    and m1: "?f ?x1 = Inr (Fin 0)"
    by (simp_all add: toy_min_func)
  have m2: "?f ?x2 = Inr (rnd (10 ^ 99))"
    by (rule toy_min_func_sentinel) simp
  have s0: "sampling_step ?f np_ones4 (Fin 1, Fin 0, Fin 0, Fin 0) (Fin (1/2)) ?x0 = Inr ?x1"
    using sampling_step_eval [of ?f ?x0 "Fin 0" "(Fin 1, Fin 0, Fin 0, Fin 0)" np_ones4 "Fin 0" "Fin (1/2)"]
    unfolding p1 accept_equal_zero using m0 m1 by (simp add: fle_def)
  have s1: "sampling_step ?f np_ones4 (Fin 0, Fin 0, Fin (- 11), Fin 0) (Fin (1/2)) ?x1 = Inr ?x1"
    using sampling_step_sentinel [of ?f ?x1 "Fin 0" "(Fin 0, Fin 0, Fin (- 11), Fin 0)" np_ones4 "Fin (1/2)"]
    unfolding p2 using m1 m2 by (simp add: fle_def)
  have upt2: "[0..<2] = [0, Suc 0]"
    by (simp add: upt_rec)
  have run: "metropolis_hastings (toy_ext (NdArray [Fin 3])) accept_reject_rng reset_priors
        (Fin 1) (Fin 0) (Fin 0) 2 0 None (Fin 3, Fin 1, Fin 10, Fin 5) None
      = Inr [[Fin 4, Fin 4], [Fin 1, Fin 1], [Fin 10, Fin 10], [Fin 5, Fin 5]]"
    unfolding metropolis_hastings_def toy_windowed_spectrum
    by (simp add: upt2 n0 n1 u s0 s1 np_empty_def columns_def)
  from sampling_phase [where ext = "toy_ext (NdArray [Fin 3])" and r = accept_reject_rng
      and st = reset_priors and window = "Fin 1" and xc = "Fin 0" and yc = "Fin 0" and nsim = 2
      and burnin = 0 and x_scale = None and ?x0.0 = "(Fin 3, Fin 1, Fin 10, Fin 5)" and hook = None]
    run toy_min_func_total [of "NdArray [Fin 3]" 3]
  show ?thesis by blast
qed

section \<open>The bounds\<close>

text \<open>
  The sampler does not keep to the bounds. On the stand-in model with observed value 7,
  the burn-in pass adopts the proposal with depth \<open>-1\<close> (it fits the observation), the
  sampling pass moves on from it, and the recorded row has \<open>zt = -1\<close>.
\<close>

theorem sampler_leaves_bounds:
  "metropolis_hastings (toy_ext (NdArray [Fin 7])) descent_rng reset_priors
        (Fin 1) (Fin 0) (Fin 0) 1 1 None (Fin 3, Fin 1, Fin 10, Fin 5) None
      = Inr [[Fin 4], [Fin (- 1)], [Fin 10], [Fin 5]]
   \<and> \<not> fle (Fin 0) (Fin (- 1))"
proof -
  let ?f = "\<lambda>x. min_func (toy_ext (NdArray [Fin 7])) reset_priors x (NdArray [Fin 1]) (NdArray [Fin 7]) (NdArray [Fin 1])"
  let ?x0 = "(Fin 3, Fin 1, Fin 10, Fin 5)"
  let ?x1 = "(Fin 3, Fin (- 1), Fin 10, Fin 5)"
  let ?x2 = "(Fin 4, Fin (- 1), Fin 10, Fin 5)"
  have n0: "random_normal4 descent_rng 0 = (Fin 0, Fin (- 2), Fin 0, Fin 0)"
    and n1: "random_normal4 descent_rng (Suc 0) = (Fin 1, Fin 0, Fin 0, Fin 0)"
    and u: "random_rand descent_rng i = Fin (1/2)" for i
    by (simp_all add: descent_rng_def)
  have p1: "vec_add ?x0 (vec_mul (Fin 0, Fin (- 2), Fin 0, Fin 0) np_ones4) = ?x1"
    and p2: "vec_add ?x1 (vec_mul (Fin 1, Fin 0, Fin 0, Fin 0) np_ones4) = ?x2"
    by (simp_all add: np_ones4_def)
  have m0: "?f ?x0 = Inr (Fin 8)"
    and m1: "?f ?x1 = Inr (Fin 0)"
    and m2: "?f ?x2 = Inr (Fin 0)"
    by (simp_all add: toy_min_func)
  have s0: "burnin_step ?f np_ones4 (Fin 0, Fin (- 2), Fin 0, Fin 0) ?x0 = Inr ?x1"
    using burnin_step_eval [of ?f ?x0 "Fin 8" "(Fin 0, Fin (- 2), Fin 0, Fin 0)" np_ones4 "Fin 0"]
    unfolding p1 using m0 m1 tempered_descent by simp
  have s1: "sampling_step ?f np_ones4 (Fin 1, Fin 0, Fin 0, Fin 0) (Fin (1/2)) ?x1 = Inr ?x2"
    using sampling_step_eval [of ?f ?x1 "Fin 0" "(Fin 1, Fin 0, Fin 0, Fin 0)" np_ones4 "Fin 0" "Fin (1/2)"]
    unfolding p2 accept_equal_zero using m1 m2 by (simp add: fle_def)
  have "metropolis_hastings (toy_ext (NdArray [Fin 7])) descent_rng reset_priors
        (Fin 1) (Fin 0) (Fin 0) 1 1 None (Fin 3, Fin 1, Fin 10, Fin 5) None
      = Inr [[Fin 4], [Fin (- 1)], [Fin 10], [Fin 5]]"
    unfolding metropolis_hastings_def toy_windowed_spectrum
    by (simp add: n0 n1 u s0 s1 np_empty_def columns_def)
  then show ?thesis
    by (simp add: fle_def)
qed

lemma toy_minimize: "minimize (toy_ext Phi) = toy_minimize"
  by (simp add: toy_ext_def)

lemma bounds_eq:
  "bounds = [(Some (Fin 0), None), (Some (Fin 0), None), (Some (Fin 0), None), (None, None)]"
  by (simp add: bounds_def lb_def ub_def)

text \<open>
  C4, as the code has it. \<^verbatim>\<open>optimise\<close> hands the minimiser the bounds of the constructor,
  \<open>0\<close> from below for beta, zt and dz and none for C, so its result has
  \<open>beta \<ge> 0\<close>, \<open>zt \<ge> 0\<close> and \<open>dz \<ge> 0\<close> whenever the minimiser keeps to the bounds it is
  given. (The sampler applies no bounds to its proposals.)
\<close>

theorem optimise_within_bounds:
  assumes "\<forall>f x v. minimize ext f x bounds = Inr v \<longrightarrow> within_bounds bounds v"
    and "optimise ext st window xc yc x0 hook = Inr (beta, zt, dz, C)"
  shows "bounds = [(Some (Fin 0), None), (Some (Fin 0), None), (Some (Fin 0), None), (None, None)]
       \<and> fle (Fin 0) beta \<and> fle (Fin 0) zt \<and> fle (Fin 0) dz"
proof -
  from assms(2) obtain k Phi sigma_Phi where
    "minimize ext (\<lambda>x. min_func ext st x k Phi sigma_Phi) x0 bounds = Inr (beta, zt, dz, C)"
    by (auto simp: optimise_def split: sum.splits)
  with assms(1) have "within_bounds bounds (beta, zt, dz, C)" by blast
  then show ?thesis
    by (simp add: bounds_eq within_bounds_def)
qed

lemma toy_minimize_honours_bounds:
  "\<forall>f x v. minimize (toy_ext Phi) f x b = Inr v \<longrightarrow> within_bounds b v"
  by (auto simp: toy_ext_def toy_minimize_def split: if_splits sum.splits)

text \<open>
  The stand-in minimiser keeps to its bounds, and \<^verbatim>\<open>optimise\<close> from the default starting
  vector returns that vector.
\<close>

theorem optimise_within_bounds_witness:
  "optimise (toy_ext (NdArray [Fin 7])) reset_priors (Fin 1) (Fin 0) (Fin 0)
        (Fin 3, Fin 1, Fin 10, Fin 5) None = Inr (Fin 3, Fin 1, Fin 10, Fin 5)
   \<and> fle (Fin 0) (Fin 3) \<and> fle (Fin 0) (Fin 1) \<and> fle (Fin 0) (Fin 10)"
proof -
  note honour = toy_minimize_honours_bounds [of "NdArray [Fin 7]" bounds]
  have run: "optimise (toy_ext (NdArray [Fin 7])) reset_priors (Fin 1) (Fin 0) (Fin 0)
        (Fin 3, Fin 1, Fin 10, Fin 5) None = Inr (Fin 3, Fin 1, Fin 10, Fin 5)"
    unfolding optimise_def toy_windowed_spectrum
    by (simp add: toy_minimize toy_minimize_def toy_min_func within_bounds_def bounds_eq fle_def)
  show ?thesis
    using optimise_within_bounds [OF honour run] run by simp
qed

section \<open>Batch estimation\<close>

lemma optimise_loop_total:
  assumes "\<forall>i \<in> set ixs. \<exists>v. optimise ext st window (xc_list ! i) (yc_list ! i) x0 hook = Inr v"
  shows "\<exists>rows. optimise_loop ext st window xc_list yc_list x0 hook ixs xOpt = Inr rows"
  using assms
proof (induction ixs arbitrary: xOpt)
  case Nil
  then show ?case by simp
next
  case (Cons i ixs)
  then obtain v where "optimise ext st window (xc_list ! i) (yc_list ! i) x0 hook = Inr v"
    by auto
  then show ?case using Cons.IH [of "xOpt[i := v]"] Cons.prems by simp
qed

lemma optimise_loop_rows:
  assumes "optimise_loop ext st window xc_list yc_list x0 hook [lo..<hi] xOpt = Inr rows"
    and "hi \<le> length xOpt"
  shows "length rows = length xOpt
       \<and> (\<forall>j<lo. rows ! j = xOpt ! j)
       \<and> (\<forall>i. lo \<le> i \<and> i < hi \<longrightarrow>
             optimise ext st window (xc_list ! i) (yc_list ! i) x0 hook = Inr (rows ! i))"
  using assms
proof (induction "hi - lo" arbitrary: lo xOpt)
  case 0
  then show ?case by auto
next
  case (Suc n)
  then have lt: "lo < hi" by simp
  then have upt: "[lo..<hi] = lo # [Suc lo..<hi]" by (rule upt_conv_Cons)
  from Suc.prems(1) obtain v where
    v: "optimise ext st window (xc_list ! lo) (yc_list ! lo) x0 hook = Inr v"
    and rest: "optimise_loop ext st window xc_list yc_list x0 hook [Suc lo..<hi] (xOpt[lo := v]) = Inr rows"
    unfolding upt by (auto split: sum.splits)
  have n: "n = hi - Suc lo" using Suc.hyps(2) by simp
  have len: "hi \<le> length (xOpt[lo := v])" using Suc.prems(2) by simp
  note IH = Suc.hyps(1) [OF n rest len]
  have at_lo: "rows ! lo = v"
    using IH lt Suc.prems(2) by simp
  have "\<forall>i. lo \<le> i \<and> i < hi \<longrightarrow>
             optimise ext st window (xc_list ! i) (yc_list ! i) x0 hook = Inr (rows ! i)"
  proof (intro allI impI)
    fix i assume i: "lo \<le> i \<and> i < hi"
    show "optimise ext st window (xc_list ! i) (yc_list ! i) x0 hook = Inr (rows ! i)"
    proof (cases "i = lo")
      case True
      then show ?thesis using v at_lo by simp
    next
      case False
      then have "Suc lo \<le> i \<and> i < hi" using i by simp
      then show ?thesis using IH by blast
    qed
  qed
  moreover have "length rows = length xOpt" using IH by simp
  moreover have "\<forall>j<lo. rows ! j = xOpt ! j" using IH by simp
  ultimately show ?case by blast
qed

lemma columns_nth:
  assumes "i < length rows"
  shows "rows ! i = (columns rows ! 0 ! i, columns rows ! 1 ! i, columns rows ! 2 ! i, columns rows ! 3 ! i)"
  using assms by (cases "rows ! i") (simp add: columns_def)

text \<open>
  C8. \<^verbatim>\<open>optimise_routine\<close> raises \<^verbatim>\<open>ValueError\<close> when the two coordinate lists differ in
  length. For lists of the same length \<open>N\<close> on whose centroids \<^verbatim>\<open>optimise\<close> returns, it
  returns four sequences of length \<open>N\<close>, and their entries at \<open>i\<close> are the four components
  of the result of \<^verbatim>\<open>optimise\<close> at centroid \<open>i\<close>.
\<close>

theorem optimise_routine_shape:
  "(length xc_list \<noteq> length yc_list \<longrightarrow>
      optimise_routine ext r st window xc_list yc_list x0 hook = Inl ValueError)
   \<and> (length xc_list = length yc_list
        \<and> (\<forall>i < length xc_list. \<exists>v. optimise ext st window (xc_list ! i) (yc_list ! i) x0 hook = Inr v)
      \<longrightarrow> (\<exists>cols. optimise_routine ext r st window xc_list yc_list x0 hook = Inr cols
             \<and> length cols = 4 \<and> (\<forall>c \<in> set cols. length c = length xc_list)
             \<and> (\<forall>i < length xc_list.
                  optimise ext st window (xc_list ! i) (yc_list ! i) x0 hook
                    = Inr (cols ! 0 ! i, cols ! 1 ! i, cols ! 2 ! i, cols ! 3 ! i))))"
proof (intro conjI impI)
  assume "length xc_list \<noteq> length yc_list"
  then show "optimise_routine ext r st window xc_list yc_list x0 hook = Inl ValueError"
    by (simp add: optimise_routine_def)
next
  assume a: "length xc_list = length yc_list
        \<and> (\<forall>i < length xc_list. \<exists>v. optimise ext st window (xc_list ! i) (yc_list ! i) x0 hook = Inr v)"
  let ?n = "length xc_list"
  have "\<forall>i \<in> set [0..<?n]. \<exists>v. optimise ext st window (xc_list ! i) (yc_list ! i) x0 hook = Inr v"
    using a by simp
  from optimise_loop_total [OF this] obtain rows where
    loop: "optimise_loop ext st window xc_list yc_list x0 hook [0..<?n] (np_empty r ?n) = Inr rows"
    by blast
  have rows: "length rows = length (np_empty r ?n)
       \<and> (\<forall>j<0. rows ! j = np_empty r ?n ! j)
       \<and> (\<forall>i. 0 \<le> i \<and> i < ?n \<longrightarrow>
             optimise ext st window (xc_list ! i) (yc_list ! i) x0 hook = Inr (rows ! i))"
    by (rule optimise_loop_rows [OF loop]) simp
  then have len: "length rows = ?n" by simp
  have run: "optimise_routine ext r st window xc_list yc_list x0 hook = Inr (columns rows)"
    using a loop by (simp add: optimise_routine_def)
  have "\<forall>i < ?n. optimise ext st window (xc_list ! i) (yc_list ! i) x0 hook
                    = Inr (columns rows ! 0 ! i, columns rows ! 1 ! i, columns rows ! 2 ! i, columns rows ! 3 ! i)"
    using rows len columns_nth [of _ rows] by simp
  then show "\<exists>cols. optimise_routine ext r st window xc_list yc_list x0 hook = Inr cols
             \<and> length cols = 4 \<and> (\<forall>c \<in> set cols. length c = length xc_list)
             \<and> (\<forall>i < length xc_list.
                  optimise ext st window (xc_list ! i) (yc_list ! i) x0 hook
                    = Inr (cols ! 0 ! i, cols ! 1 ! i, cols ! 2 ! i, cols ! 3 ! i))"
    using run length_columns [of rows] len by auto
qed

lemma probe_optimise:
  assumes "rnd z = Fin z" and "rnd (2 * z) = Fin (2 * z)"
    and "rnd (c - 2 * z) = Fin (c - 2 * z)"
    and "rnd (c - 2 * z - a) = Fin (c - 2 * z - a)"
    and "rnd ((c - 2 * z - a)\<^sup>2) = Fin ((c - 2 * z - a)\<^sup>2)"
  shows "optimise probe_ext reset_priors window (Fin a) yc (beta, Fin z, Fin 10, Fin c) None
     = Inr (Fin 0, Fin 0, Fin 0,
            case rnd (1/2 * (c - 2 * z - a)\<^sup>2) of Fin m \<Rightarrow> Fin m | _ \<Rightarrow> rnd (10 ^ 99))"
proof -
  have spec: "windowed_spectrum probe_ext window (Fin a) yc None
              = Inr (NdArray [Fin 1], NdArray [Fin a], NdArray [Fin 1])"
    by (simp add: windowed_spectrum_def probe_ext_def)
  have syn: "bouligand2009 probe_ext (NdArray [Fin 1]) beta (Fin z) (Fin 10) (Fin c)
             = Inr (NdArray [Fin (c - 2 * z)])"
    using assms(1-3) by (simp add: probe_ext_def toy_model_def fsub_def)
  have pen: "objective_routine reset_priors
          [(''beta'', NpFloat beta), (''zt'', NpFloat (Fin z)), (''dz'', NpFloat (Fin 10)),
           (''C'', NpFloat (Fin c))] = Inr (Fin 0)"
    by (simp add: objective_routine_def reset_priors_def)
  have obj: "min_func probe_ext reset_priors (beta, Fin z, Fin 10, Fin c)
               (NdArray [Fin 1]) (NdArray [Fin a]) (NdArray [Fin 1])
             = Inr (case rnd (1/2 * (c - 2 * z - a)\<^sup>2) of Fin m \<Rightarrow> Fin m | _ \<Rightarrow> rnd (10 ^ 99))"
    unfolding min_func_def prod.case syn sum.case toy_misfit [OF assms(4,5)] pen
    by (cases "rnd (1/2 * (c - 2 * z - a)\<^sup>2)") (simp_all add: rnd_idem)
  have mini: "minimize probe_ext f x0 b
              = (case f x0 of Inl e \<Rightarrow> Inl e | Inr m \<Rightarrow> Inr (Fin 0, Fin 0, Fin 0, m))" for f x0 b
    by (simp add: probe_ext_def)
  show ?thesis
    unfolding optimise_def spec sum.case prod.case mini obj by (rule refl)
qed

text \<open>
  On the second set of stand-ins: lists of lengths 2 and 1 are refused, and the
  centroids with \<open>x = 3, 1, 7\<close> give the objectives \<open>0, 2, 8\<close> in that order.
\<close>

theorem optimise_routine_shape_witness:
  "optimise_routine probe_ext zero_draw_rng reset_priors (Fin 1) [Fin 3, Fin 1] [Fin 0]
      (Fin 3, Fin 1, Fin 10, Fin 5) None = Inl ValueError
   \<and> optimise_routine probe_ext zero_draw_rng reset_priors (Fin 1)
        [Fin 3, Fin 1, Fin 7] [Fin 0, Fin 0, Fin 0] (Fin 3, Fin 1, Fin 10, Fin 5) None
     = Inr [[Fin 0, Fin 0, Fin 0], [Fin 0, Fin 0, Fin 0], [Fin 0, Fin 0, Fin 0],
            [Fin 0, Fin 2, Fin 8]]
   \<and> (\<exists>cols. optimise_routine probe_ext zero_draw_rng reset_priors (Fin 1)
          [Fin 3, Fin 1, Fin 7] [Fin 0, Fin 0, Fin 0] (Fin 3, Fin 1, Fin 10, Fin 5) None = Inr cols
        \<and> length cols = 4 \<and> (\<forall>c \<in> set cols. length c = 3))"
proof -
  have run: "optimise_routine probe_ext zero_draw_rng reset_priors (Fin 1)
        [Fin 3, Fin 1, Fin 7] [Fin 0, Fin 0, Fin 0] (Fin 3, Fin 1, Fin 10, Fin 5) None
     = Inr [[Fin 0, Fin 0, Fin 0], [Fin 0, Fin 0, Fin 0], [Fin 0, Fin 0, Fin 0],
            [Fin 0, Fin 2, Fin 8]]"
    by (simp add: optimise_routine_def probe_optimise upt_rec np_empty_def columns_def
        power2_eq_square)
  have each: "length [Fin 3, Fin 1, Fin 7] = length [Fin 0, Fin 0, Fin 0 :: pyfloat]
      \<and> (\<forall>i < length [Fin 3, Fin 1, Fin 7].
            \<exists>v. optimise probe_ext reset_priors (Fin 1) ([Fin 3, Fin 1, Fin 7] ! i)
                   ([Fin 0, Fin 0, Fin 0] ! i) (Fin 3, Fin 1, Fin 10, Fin 5) None = Inr v)"
    by (auto simp: less_Suc_eq numeral_3_eq_3 probe_optimise)
  have "\<exists>cols. optimise_routine probe_ext zero_draw_rng reset_priors (Fin 1)
          [Fin 3, Fin 1, Fin 7] [Fin 0, Fin 0, Fin 0] (Fin 3, Fin 1, Fin 10, Fin 5) None = Inr cols
        \<and> length cols = 4 \<and> (\<forall>c \<in> set cols. length c = 3)"
    using optimise_routine_shape [of "[Fin 3, Fin 1, Fin 7]" "[Fin 0, Fin 0, Fin 0]" probe_ext
            zero_draw_rng reset_priors "Fin 1" "(Fin 3, Fin 1, Fin 10, Fin 5)" None] each
    by auto
  moreover have "optimise_routine probe_ext zero_draw_rng reset_priors (Fin 1) [Fin 3, Fin 1] [Fin 0]
      (Fin 3, Fin 1, Fin 10, Fin 5) None = Inl ValueError"
    using optimise_routine_shape [of "[Fin 3, Fin 1]" "[Fin 0]" probe_ext zero_draw_rng reset_priors
            "Fin 1" "(Fin 3, Fin 1, Fin 10, Fin 5)" None]
    by simp
  ultimately show ?thesis using run by blast
qed

end
